theory Spec2Isabelle
  imports Main "HOL-Library.Word" "HOL-Library.Sublist"
begin

unbundle bit_operations_syntax

section \<open>Reconnection back-off (ConnectionRetry)\<close>

text \<open>
  \<^verbatim>\<open>time.Duration\<close> is a signed 64-bit count of nanoseconds: a \<open>64 word\<close>, compared
  with the signed order. The attempt counters are Go \<open>int\<close>s that are only ever
  incremented below \<open>maxAttempts\<close>; they are modelled as \<open>int\<close>.
\<close>

type_synonym duration = "64 word"

definition Second :: duration where
  "Second = 1000000000"

definition MaxContentLength :: nat where
  "MaxContentLength = 4096"

definition MaxReconnectAttempts :: int where
  "MaxReconnectAttempts = 5"

definition InitialReconnectDelay :: duration where
  "InitialReconnectDelay = 1 * Second"

definition MaxReconnectDelay :: duration where
  "MaxReconnectDelay = 30 * Second"

record ConnectionRetry =
  attempts :: int
  maxAttempts :: int
  initialDelay :: duration
  maxDelay :: duration
  currentDelay :: duration

definition NewConnectionRetry :: ConnectionRetry where
  "NewConnectionRetry =
     \<lparr>attempts = 0,
      maxAttempts = MaxReconnectAttempts,
      initialDelay = InitialReconnectDelay,
      maxDelay = MaxReconnectDelay,
      currentDelay = InitialReconnectDelay\<rparr>"

text \<open>\<open>NextDelay\<close> returns the delay together with the updated receiver.\<close>

definition NextDelay :: "ConnectionRetry \<Rightarrow> duration \<times> ConnectionRetry" where
  "NextDelay r =
     (if attempts r \<ge> maxAttempts r then (0, r)
      else
        let r1 = r\<lparr>attempts := attempts r + 1\<rparr>;
            delay = currentDelay r1;
            r2 = r1\<lparr>currentDelay := currentDelay r1 * 2\<rparr>;
            r3 = (if maxDelay r2 <s currentDelay r2
                  then r2\<lparr>currentDelay := maxDelay r2\<rparr> else r2)
        in (delay, r3))"

definition Reset :: "ConnectionRetry \<Rightarrow> ConnectionRetry" where
  "Reset r = r\<lparr>attempts := 0, currentDelay := initialDelay r\<rparr>"

definition ShouldRetry :: "ConnectionRetry \<Rightarrow> bool" where
  "ShouldRetry r \<longleftrightarrow> attempts r < maxAttempts r"

definition GetAttempts :: "ConnectionRetry \<Rightarrow> int" where
  "GetAttempts r = attempts r"

text \<open>\<open>n\<close> successive calls of \<open>NextDelay\<close>: the delays returned, in order, and the
  state left behind.\<close>

fun NextDelays :: "nat \<Rightarrow> ConnectionRetry \<Rightarrow> duration list \<times> ConnectionRetry" where
  "NextDelays 0 r = ([], r)"
| "NextDelays (Suc n) r =
     (case NextDelay r of (d, r') \<Rightarrow>
        (case NextDelays n r' of (ds, r'') \<Rightarrow> (d # ds, r'')))"

text \<open>The receiver state after \<open>a\<close> attempts with current delay \<open>d\<close>, the other fields
  holding their defaults.\<close>

definition retry_after :: "int \<Rightarrow> duration \<Rightarrow> ConnectionRetry" where
  "retry_after a d =
     \<lparr>attempts = a, maxAttempts = 5, initialDelay = 1000000000,
      maxDelay = 30000000000, currentDelay = d\<rparr>"

section \<open>Go strings\<close>

text \<open>
  A Go \<open>string\<close> is a sequence of bytes, here a \<open>string\<close> (\<open>char list\<close>, one \<open>char\<close> per
  byte); \<open>len\<close> counts bytes. The functions of package \<open>strings\<close> that the validator
  calls work on runes, which they read with \<open>utf8.DecodeRuneInString\<close>: a byte that does
  not start a well-formed sequence is read as \<open>RuneError\<close> of width 1.
\<close>

type_synonym rune = int

definition RuneError :: rune where
  "RuneError = 0xFFFD"

definition byte :: "char \<Rightarrow> int" where
  "byte c = of_char c"

text \<open>The table \<open>first\<close> of package \<open>utf8\<close>: the length a lead byte announces
  (1 for ASCII, 0 for a byte that cannot lead), and the range \<open>acceptRanges\<close> allows
  for the second byte.\<close>

definition first_size :: "int \<Rightarrow> nat" where
  "first_size b =
     (if b < 0x80 then 1 else if b < 0xC2 then 0 else if b < 0xE0 then 2
      else if b < 0xF0 then 3 else if b < 0xF5 then 4 else 0)"

definition accept_lo :: "int \<Rightarrow> int" where
  "accept_lo b = (if b = 0xE0 then 0xA0 else if b = 0xF0 then 0x90 else 0x80)"

definition accept_hi :: "int \<Rightarrow> int" where
  "accept_hi b = (if b = 0xED then 0x9F else if b = 0xF4 then 0x8F else 0xBF)"

definition decodeRune :: "string \<Rightarrow> rune \<times> nat" where
  "decodeRune s =
     (case s of
        [] \<Rightarrow> (RuneError, 0)
      | c0 # _ \<Rightarrow>
          let s0 = byte c0; sz = first_size s0 in
          if sz = 1 then (s0, 1)
          else if sz = 0 then (RuneError, 1)
          else if length s < sz then (RuneError, 1)
          else
            let s1 = byte (s ! 1) in
            if s1 < accept_lo s0 \<or> accept_hi s0 < s1 then (RuneError, 1)
            else if sz \<le> 2 then ((s0 mod 32) * 64 + s1 mod 64, 2)
            else
              let s2 = byte (s ! 2) in
              if s2 < 0x80 \<or> 0xBF < s2 then (RuneError, 1)
              else if sz \<le> 3
              then ((s0 mod 16) * 4096 + (s1 mod 64) * 64 + s2 mod 64, 3)
              else
                let s3 = byte (s ! 3) in
                if s3 < 0x80 \<or> 0xBF < s3 then (RuneError, 1)
                else ((s0 mod 8) * 262144 + (s1 mod 64) * 4096
                        + (s2 mod 64) * 64 + s3 mod 64, 4))"

text \<open>\<open>for _, c := range s\<close>: the runes of \<open>s\<close> in order, each with the bytes it was
  read from.\<close>

fun segments :: "string \<Rightarrow> (rune \<times> string) list" where
  "segments [] = []"
| "segments (c # cs) =
     (fst (decodeRune (c # cs)), c # take (snd (decodeRune (c # cs)) - 1) cs)
       # segments (drop (snd (decodeRune (c # cs)) - 1) cs)"

definition utf8_RuneError :: string where
  "utf8_RuneError = [char_of (0xEF :: int), char_of (0xBF :: int), char_of (0xBD :: int)]"

text \<open>
  \<open>strings.Map\<close> with a mapping that returns its argument or -1 (drop): every kept rune
  is written with \<open>WriteRune\<close>, which gives back the bytes of a well-formed sequence and
  writes U+FFFD for a byte that was read as \<open>RuneError\<close>.
\<close>

definition Map_drop :: "(rune \<Rightarrow> bool) \<Rightarrow> string \<Rightarrow> string" where
  "Map_drop d s =
     concat (map (\<lambda>(r, bs). if d r then [] else if r = RuneError then utf8_RuneError else bs)
               (segments s))"

text \<open>\<open>unicode.IsSpace\<close>: the Latin-1 cases and the table \<open>White_Space\<close>.\<close>

definition IsSpace :: "rune \<Rightarrow> bool" where
  "IsSpace r \<longleftrightarrow>
     r = 0x09 \<or> r = 0x0A \<or> r = 0x0B \<or> r = 0x0C \<or> r = 0x0D \<or> r = 0x20
     \<or> r = 0x85 \<or> r = 0xA0 \<or> r = 0x1680 \<or> (0x2000 \<le> r \<and> r \<le> 0x200A)
     \<or> r = 0x2028 \<or> r = 0x2029 \<or> r = 0x202F \<or> r = 0x205F \<or> r = 0x3000"

definition trim_segments :: "(rune \<times> string) list \<Rightarrow> (rune \<times> string) list" where
  "trim_segments ss =
     rev (dropWhile (\<lambda>p. IsSpace (fst p)) (rev (dropWhile (\<lambda>p. IsSpace (fst p)) ss)))"

text \<open>\<open>strings.TrimSpace\<close>: the substring left after the leading and trailing white
  space runes are cut off.\<close>

definition TrimSpace :: "string \<Rightarrow> string" where
  "TrimSpace s = concat (map snd (trim_segments (segments s)))"

text \<open>\<open>strings.ReplaceAll(s, "\x00", "")\<close>.\<close>

definition ReplaceAll_NUL :: "string \<Rightarrow> string" where
  "ReplaceAll_NUL s = filter (\<lambda>c. byte c \<noteq> 0) s"

text \<open>
  \<open>strings.ToLower\<close>. ASCII capitals are lowered; of the runes outside ASCII exactly
  U+0130 and U+212A have an ASCII lower case (\<open>i\<close> and \<open>k\<close>). Every other rune outside
  ASCII is mapped by \<open>unicode.ToLower\<close> to a rune outside ASCII; the model leaves its
  bytes in place, which is exact for the one use made of the result, a comparison of
  its end with an ASCII suffix.
\<close>

definition lower_segment :: "rune \<times> string \<Rightarrow> string" where
  "lower_segment p =
     (case p of (r, bs) \<Rightarrow>
        if 0x41 \<le> r \<and> r \<le> 0x5A then [char_of (r + 32)]
        else if r = 0x130 then ''i''
        else if r = 0x212A then ''k''
        else if r = RuneError then utf8_RuneError
        else bs)"

definition ToLower :: "string \<Rightarrow> string" where
  "ToLower s = concat (map lower_segment (segments s))"

fun Contains :: "string \<Rightarrow> string \<Rightarrow> bool" where
  "Contains [] sub = (sub = [])"
| "Contains (c # cs) sub = (prefix sub (c # cs) \<or> Contains cs sub)"

definition HasSuffix :: "string \<Rightarrow> string \<Rightarrow> bool" where
  "HasSuffix s suf = suffix suf s"

section \<open>Messages\<close>

text \<open>The two wire structs. \<open>Timestamp\<close> is an \<open>int64\<close> on which no arithmetic is done;
  the field \<open>Extra\<close> of \<open>IncomingMessage\<close> has the tag \<open>json:"-"\<close> and is never read or
  written.\<close>

record IncomingMessage =
  in_Type :: string
  in_ID :: string
  in_From :: string
  in_Chat :: string
  in_Content :: string
  in_Media :: "string list"
  in_FromName :: string
  in_Status :: string
  in_Error :: string
  in_Timestamp :: int
  in_Signature :: string

record OutgoingMessage =
  out_Type :: string
  out_To :: string
  out_Content :: string
  out_Media :: "string list"
  out_Timestamp :: int
  out_Signature :: string

record MessageValidator =
  hmacKey :: string

definition NewMessageValidator :: "string \<Rightarrow> MessageValidator" where
  "NewMessageValidator k = \<lparr>hmacKey = k\<rparr>"

definition MessageTypeMessage :: string where "MessageTypeMessage = ''message''"
definition MessageTypeStatus :: string where "MessageTypeStatus = ''status''"
definition MessageTypeError :: string where "MessageTypeError = ''error''"
definition MessageTypePing :: string where "MessageTypePing = ''ping''"
definition MessageTypePong :: string where "MessageTypePong = ''pong''"

definition StatusDelivered :: string where "StatusDelivered = ''delivered''"
definition StatusRead :: string where "StatusRead = ''read''"
definition StatusSent :: string where "StatusSent = ''sent''"
definition StatusFailed :: string where "StatusFailed = ''failed''"

text \<open>The errors of the validator. A constructor with an argument is a wrapping
  \<open>fmt.Errorf("...: %w", err)\<close>.\<close>

datatype error =
    InvalidJSON
  | InvalidMessageType string
  | UnsupportedMessageType string
  | OutgoingTypeNotMessage
  | PhoneEmpty
  | PhoneLength
  | InvalidRecipient error
  | InvalidSender error
  | MissingFrom
  | MissingContentOrMedia
  | ContentTooLong
  | ContentValidationFailed error
  | DirectoryTraversal
  | InvalidExtension
  | InvalidMediaPath error
  | MissingSignature
  | InvalidSignature
  | SignatureVerificationFailed error
  | SignFailed error
  | StatusMissingID
  | StatusMissingStatus
  | InvalidStatus string
  | ErrorMissing
  | ErrorTooLong

section \<open>encoding/json\<close>

definition dquote :: char where
  "dquote = CHR 0x22"

definition backslash :: char where
  "backslash = CHR 0x5C"

definition lower_hex :: "int \<Rightarrow> char" where
  "lower_hex d = ''0123456789abcdef'' ! nat d"

text \<open>
  How \<open>json.Marshal\<close> writes one rune of a string (\<open>appendString\<close> with HTML escaping,
  which \<open>Marshal\<close> turns on): quote and backslash are escaped, the control characters
  have short or four-digit hexadecimal escapes, as have \<open><\<close>, \<open>>\<close> and \<open>&\<close>; a byte that is not the start
  of a well-formed sequence is written as the escape of U+FFFD; U+2028 and U+2029 are escaped; every
  other rune keeps its bytes.
\<close>

definition json_escape :: "rune \<times> string \<Rightarrow> string" where
  "json_escape p =
     (case p of (r, bs) \<Rightarrow>
        if r < 0x80 then
          (if r = 0x22 \<or> r = 0x5C then backslash # bs
           else if r = 0x08 then [backslash, CHR ''b'']
           else if r = 0x0C then [backslash, CHR ''f'']
           else if r = 0x0A then [backslash, CHR ''n'']
           else if r = 0x0D then [backslash, CHR ''r'']
           else if r = 0x09 then [backslash, CHR ''t'']
           else if r < 0x20 \<or> r = 0x3C \<or> r = 0x3E \<or> r = 0x26
           then [backslash, CHR ''u'', CHR ''0'', CHR ''0'', lower_hex (r div 16), lower_hex (r mod 16)]
           else bs)
        else if r = RuneError \<and> length bs = 1 then backslash # ''ufffd''
        else if r = 0x2028 then backslash # ''u2028''
        else if r = 0x2029 then backslash # ''u2029''
        else bs)"

definition json_string :: "string \<Rightarrow> string" where
  "json_string s = dquote # concat (map json_escape (segments s)) @ [dquote]"

function dec_digits :: "int \<Rightarrow> string" where
  "dec_digits n =
     (if n < 10 then [lower_hex n] else dec_digits (n div 10) @ [lower_hex (n mod 10)])"
  by pat_completeness auto
termination
  by (relation "measure nat") auto

definition json_int :: "int \<Rightarrow> string" where
  "json_int i = (if i < 0 then CHR ''-'' # dec_digits (- i) else dec_digits i)"

definition json_key :: "string \<Rightarrow> string" where
  "json_key k = dquote # k @ [dquote, CHR '':'']"

fun json_strings :: "string list \<Rightarrow> string" where
  "json_strings [] = []"
| "json_strings [s] = json_string s"
| "json_strings (s # ss) = json_string s @ CHR '','' # json_strings ss"

text \<open>A struct field with the option \<open>omitempty\<close>: left out when it is the empty
  string, the empty slice or zero.\<close>

definition string_member :: "string \<Rightarrow> string \<Rightarrow> string" where
  "string_member k v = (if v = [] then [] else CHR '','' # json_key k @ json_string v)"

definition strings_member :: "string \<Rightarrow> string list \<Rightarrow> string" where
  "strings_member k vs =
     (if vs = [] then [] else CHR '','' # json_key k @ CHR ''['' # json_strings vs @ '']'')"

definition int_member :: "string \<Rightarrow> int \<Rightarrow> string" where
  "int_member k i = (if i = 0 then [] else CHR '','' # json_key k @ json_int i)"

text \<open>\<open>json.Marshal\<close> of the two structs: the fields in declaration order under their
  tags; \<open>type\<close> is always written.\<close>

definition marshalOutgoing :: "OutgoingMessage \<Rightarrow> string" where
  "marshalOutgoing m =
     CHR ''{'' # json_key ''type'' @ json_string (out_Type m)
       @ string_member ''to'' (out_To m)
       @ string_member ''content'' (out_Content m)
       @ strings_member ''media'' (out_Media m)
       @ int_member ''timestamp'' (out_Timestamp m)
       @ string_member ''signature'' (out_Signature m)
       @ ''}''"

definition marshalIncoming :: "IncomingMessage \<Rightarrow> string" where
  "marshalIncoming m =
     CHR ''{'' # json_key ''type'' @ json_string (in_Type m)
       @ string_member ''id'' (in_ID m)
       @ string_member ''from'' (in_From m)
       @ string_member ''chat'' (in_Chat m)
       @ string_member ''content'' (in_Content m)
       @ strings_member ''media'' (in_Media m)
       @ string_member ''from_name'' (in_FromName m)
       @ string_member ''status'' (in_Status m)
       @ string_member ''error'' (in_Error m)
       @ int_member ''timestamp'' (in_Timestamp m)
       @ string_member ''signature'' (in_Signature m)
       @ ''}''"

section \<open>HMAC-SHA256\<close>

text \<open>
  \<open>crypto/sha256\<close> and \<open>crypto/hmac\<close> after FIPS 180-4 and RFC 2104. A 32-bit word is an
  \<open>int\<close> in \<open>0 ..< 2 ^ 32\<close> with the wrap-around written out; a byte is an \<open>int\<close> in
  \<open>0 ..< 256\<close>.
\<close>

definition add32 :: "int \<Rightarrow> int \<Rightarrow> int" where
  "add32 a b = (a + b) mod 4294967296"

definition rotr :: "nat \<Rightarrow> int \<Rightarrow> int" where
  "rotr n x = x div 2 ^ n + (x mod 2 ^ n) * 2 ^ (32 - n)"

definition Ch :: "int \<Rightarrow> int \<Rightarrow> int \<Rightarrow> int" where
  "Ch x y z = (x AND y) XOR ((4294967295 - x) AND z)"

definition Maj :: "int \<Rightarrow> int \<Rightarrow> int \<Rightarrow> int" where
  "Maj x y z = (x AND y) XOR (x AND z) XOR (y AND z)"

definition bsig0 :: "int \<Rightarrow> int" where
  "bsig0 x = rotr 2 x XOR rotr 13 x XOR rotr 22 x"

definition bsig1 :: "int \<Rightarrow> int" where
  "bsig1 x = rotr 6 x XOR rotr 11 x XOR rotr 25 x"

definition ssig0 :: "int \<Rightarrow> int" where
  "ssig0 x = rotr 7 x XOR rotr 18 x XOR x div 2 ^ 3"

definition ssig1 :: "int \<Rightarrow> int" where
  "ssig1 x = rotr 17 x XOR rotr 19 x XOR x div 2 ^ 10"

text \<open>The round constants (the first 32 bits of the fractional parts of the cube roots
  of the first 64 primes), in decimal.\<close>

definition K256 :: "int list" where
  "K256 =
    [1116352408, 1899447441, 3049323471, 3921009573, 961987163, 1508970993,
     2453635748, 2870763221, 3624381080, 310598401, 607225278, 1426881987,
     1925078388, 2162078206, 2614888103, 3248222580, 3835390401, 4022224774,
     264347078, 604807628, 770255983, 1249150122, 1555081692, 1996064986,
     2554220882, 2821834349, 2952996808, 3210313671, 3336571891, 3584528711,
     113926993, 338241895, 666307205, 773529912, 1294757372, 1396182291,
     1695183700, 1986661051, 2177026350, 2456956037, 2730485921, 2820302411,
     3259730800, 3345764771, 3516065817, 3600352804, 4094571909, 275423344,
     430227734, 506948616, 659060556, 883997877, 958139571, 1322822218,
     1537002063, 1747873779, 1955562222, 2024104815, 2227730452, 2361852424,
     2428436474, 2756734187, 3204031479, 3329325298]"

text \<open>The sixteen most recent words of the message schedule, oldest first, and the
  eight working variables.\<close>

datatype sched =
  Sched int int int int int int int int int int int int int int int int

datatype hstate = HState int int int int int int int int

definition T1 :: "int \<Rightarrow> int \<Rightarrow> int \<Rightarrow> int \<Rightarrow> int \<Rightarrow> int \<Rightarrow> int" where
  "T1 e f g h k w = add32 (add32 (add32 (add32 h (bsig1 e)) (Ch e f g)) k) w"

definition T2 :: "int \<Rightarrow> int \<Rightarrow> int \<Rightarrow> int" where
  "T2 a b c = add32 (bsig0 a) (Maj a b c)"

fun round_step :: "int \<Rightarrow> int \<Rightarrow> hstate \<Rightarrow> hstate" where
  "round_step t1 t2 (HState a b c d e f g h) =
     HState (add32 t1 t2) a b c (add32 d t1) e f g"

fun rounds :: "int list \<Rightarrow> sched \<Rightarrow> hstate \<Rightarrow> hstate" where
  "rounds [] ws st = st"
| "rounds (k # ks) (Sched w0 w1 w2 w3 w4 w5 w6 w7 w8 w9 w10 w11 w12 w13 w14 w15)
       (HState a b c d e f g h) =
     rounds ks
       (Sched w1 w2 w3 w4 w5 w6 w7 w8 w9 w10 w11 w12 w13 w14 w15
          (add32 (add32 (add32 (ssig1 w14) w9) (ssig0 w1)) w0))
       (round_step (T1 e f g h k w0) (T2 a b c) (HState a b c d e f g h))"

fun hadd :: "hstate \<Rightarrow> hstate \<Rightarrow> hstate" where
  "hadd (HState a b c d e f g h) (HState a' b' c' d' e' f' g' h') =
     HState (add32 a a') (add32 b b') (add32 c c') (add32 d d')
       (add32 e e') (add32 f f') (add32 g g') (add32 h h')"

definition compress :: "hstate \<Rightarrow> sched \<Rightarrow> hstate" where
  "compress st blk = hadd st (rounds K256 blk st)"

definition H0 :: hstate where
  "H0 = HState 1779033703 3144134277 1013904242 2773480762
          1359893119 2600822924 528734635 1541459225"

fun be32 :: "int list \<Rightarrow> int list" where
  "be32 (a # b # c # d # r) = (((a * 256 + b) * 256 + c) * 256 + d) # be32 r"
| "be32 r = []"

definition sched_of :: "int list \<Rightarrow> sched" where
  "sched_of ws =
     Sched (ws ! 0) (ws ! 1) (ws ! 2) (ws ! 3) (ws ! 4) (ws ! 5) (ws ! 6) (ws ! 7)
       (ws ! 8) (ws ! 9) (ws ! 10) (ws ! 11) (ws ! 12) (ws ! 13) (ws ! 14) (ws ! 15)"

fun sha_blocks :: "nat \<Rightarrow> hstate \<Rightarrow> int list \<Rightarrow> hstate" where
  "sha_blocks 0 st ws = st"
| "sha_blocks (Suc n) st ws = sha_blocks n (compress st (sched_of (take 16 ws))) (drop 16 ws)"

text \<open>The message followed by the byte 0x80, zero bytes up to 56 modulo 64, and the
  bit length as eight big-endian bytes: a whole number of 64-byte blocks.\<close>

definition sha_pad :: "int list \<Rightarrow> int list" where
  "sha_pad m =
     m @ [128] @ replicate ((119 - length m mod 64) mod 64) 0
       @ map (\<lambda>i. int (length m * 8) div 256 ^ (7 - i) mod 256) [0..<8]"

fun word_bytes :: "int \<Rightarrow> int list" where
  "word_bytes w = [w div 16777216, w div 65536 mod 256, w div 256 mod 256, w mod 256]"

fun hstate_bytes :: "hstate \<Rightarrow> int list" where
  "hstate_bytes (HState a b c d e f g h) =
     word_bytes a @ word_bytes b @ word_bytes c @ word_bytes d
       @ word_bytes e @ word_bytes f @ word_bytes g @ word_bytes h"

definition sha256 :: "int list \<Rightarrow> int list" where
  "sha256 m = hstate_bytes (sha_blocks (length (sha_pad m) div 64) H0 (be32 (sha_pad m)))"

definition hmac_key_block :: "int list \<Rightarrow> int list" where
  "hmac_key_block k =
     (let k' = (if length k > 64 then sha256 k else k) in k' @ replicate (64 - length k') 0)"

definition hmac_sha256 :: "int list \<Rightarrow> int list \<Rightarrow> int list" where
  "hmac_sha256 k m =
     sha256 (map (\<lambda>b. b XOR 0x5c) (hmac_key_block k)
             @ sha256 (map (\<lambda>b. b XOR 0x36) (hmac_key_block k) @ m))"

text \<open>\<open>hex.EncodeToString\<close>.\<close>

definition hex_digit :: "int \<Rightarrow> char" where
  "hex_digit d = lower_hex d"

definition hex_EncodeToString :: "int list \<Rightarrow> string" where
  "hex_EncodeToString bs = concat (map (\<lambda>b. [hex_digit (b div 16), hex_digit (b mod 16)]) bs)"

definition bytes_of :: "string \<Rightarrow> int list" where
  "bytes_of s = map of_char s"

section \<open>A decoder for flat frames\<close>

text \<open>
  A model of \<open>json.Unmarshal\<close> into an \<open>IncomingMessage\<close> for the frames this program and
  its test bridges exchange: one JSON object whose member values are strings, integers
  or arrays of strings, with insignificant white space allowed between tokens. On such
  a text it returns what \<open>encoding/json\<close> returns (members are bound to the fields by
  their tags, ignoring case; a member with no field is skipped; a later member
  overrides an earlier one; a value of the wrong kind is an error). Every other text is
  reported as an error, which \<open>encoding/json\<close> does not always do, so statements about
  all frames take the decoder as a parameter and this one is used at concrete frames.
\<close>

datatype token =
  TLBrace | TRBrace | TLBrack | TRBrack | TColon | TComma | TString string | TNumber string

datatype lex_mode = LOut | LStr string

definition is_digit :: "char \<Rightarrow> bool" where
  "is_digit c \<longleftrightarrow> 0x30 \<le> byte c \<and> byte c \<le> 0x39"

definition is_json_space :: "char \<Rightarrow> bool" where
  "is_json_space c \<longleftrightarrow> byte c = 0x20 \<or> byte c = 0x09 \<or> byte c = 0x0A \<or> byte c = 0x0D"

definition hex_value :: "char \<Rightarrow> int option" where
  "hex_value c =
     (let b = byte c in
      if 0x30 \<le> b \<and> b \<le> 0x39 then Some (b - 0x30)
      else if 0x61 \<le> b \<and> b \<le> 0x66 then Some (b - 0x61 + 10)
      else if 0x41 \<le> b \<and> b \<le> 0x46 then Some (b - 0x41 + 10)
      else None)"

text \<open>The bytes a \<open>\uXXXX\<close> escape stands for: the ASCII code points and the three
  code points outside ASCII that \<open>json.Marshal\<close> writes as escapes.\<close>

definition unicode_escape :: "char \<Rightarrow> char \<Rightarrow> char \<Rightarrow> char \<Rightarrow> string option" where
  "unicode_escape h1 h2 h3 h4 =
     (case (hex_value h1, hex_value h2, hex_value h3, hex_value h4) of
        (Some a, Some b, Some c, Some d) \<Rightarrow>
          (let r = ((a * 16 + b) * 16 + c) * 16 + d in
           if r < 0x80 then Some [char_of r]
           else if r = 0x2028 then Some [char_of (0xE2 :: int), char_of (0x80 :: int), char_of (0xA8 :: int)]
           else if r = 0x2029 then Some [char_of (0xE2 :: int), char_of (0x80 :: int), char_of (0xA9 :: int)]
           else if r = 0xFFFD then Some utf8_RuneError
           else None)
      | _ \<Rightarrow> None)"

definition simple_escape :: "char \<Rightarrow> char option" where
  "simple_escape e =
     (if e = dquote \<or> e = backslash \<or> e = CHR ''/'' then Some e
      else if e = CHR ''b'' then Some (char_of (0x08 :: int))
      else if e = CHR ''f'' then Some (char_of (0x0C :: int))
      else if e = CHR ''n'' then Some (char_of (0x0A :: int))
      else if e = CHR ''r'' then Some (char_of (0x0D :: int))
      else if e = CHR ''t'' then Some (char_of (0x09 :: int))
      else None)"

text \<open>A string literal is decoded as \<open>unquote\<close> does: escapes are replaced, and a byte
  that starts no well-formed sequence becomes U+FFFD.\<close>

definition coerce_utf8 :: "string \<Rightarrow> string" where
  "coerce_utf8 s = Map_drop (\<lambda>r. False) s"

text \<open>The rest of a string literal after its opening quote: the bytes it stands for
  so far in \<open>acc\<close>, reversed.\<close>

fun lex_string :: "string \<Rightarrow> string \<Rightarrow> (string \<times> string) option" where
  "lex_string acc [] = None"
| "lex_string acc (c # cs) =
     (if c = dquote then Some (coerce_utf8 (rev acc), cs)
      else if c = backslash then
        (case cs of
           [] \<Rightarrow> None
         | e # cs' \<Rightarrow>
            if e = CHR ''u'' then
              (if length cs' < 4 then None
               else case unicode_escape (cs' ! 0) (cs' ! 1) (cs' ! 2) (cs' ! 3) of
                 None \<Rightarrow> None
               | Some bs \<Rightarrow> lex_string (rev bs @ acc) (drop 4 cs'))
            else
              (case simple_escape e of
                 None \<Rightarrow> None
               | Some x \<Rightarrow> lex_string (x # acc) cs'))
      else if byte c < 0x20 then None
      else lex_string (c # acc) cs)"

definition punctuation :: "char \<Rightarrow> token option" where
  "punctuation c =
     (if c = CHR ''{'' then Some TLBrace
      else if c = CHR ''}'' then Some TRBrace
      else if c = CHR ''['' then Some TLBrack
      else if c = CHR '']'' then Some TRBrack
      else if c = CHR '':'' then Some TColon
      else if c = CHR '','' then Some TComma
      else None)"

text \<open>The next token and the text after it; \<open>None\<close> at the end of the text and at a
  byte that starts no token.\<close>

definition next_token :: "string \<Rightarrow> (token \<times> string) option" where
  "next_token s =
     (case dropWhile is_json_space s of
        [] \<Rightarrow> None
      | c # cs \<Rightarrow>
         (case punctuation c of
            Some t \<Rightarrow> Some (t, cs)
          | None \<Rightarrow>
             if c = dquote then map_option (\<lambda>(v, rest). (TString v, rest)) (lex_string [] cs)
             else if c = CHR ''-'' \<or> is_digit c
             then Some (TNumber (c # takeWhile is_digit cs), dropWhile is_digit cs)
             else None))"

lemma lex_string_shorter: "lex_string acc s = Some (v, r) \<Longrightarrow> length r < length s"
proof (induction acc s rule: lex_string.induct)
  case (1 acc)
  then show ?case by simp
next
  case (2 acc c cs)
  show ?case
  proof (cases "c = dquote")
    case True
    with "2.prems" show ?thesis by simp
  next
    case nq: False
    show ?thesis
    proof (cases "c = backslash")
      case False
      with nq "2.prems" "2.IH"(3) show ?thesis
        by (fastforce split: if_splits)
    next
      case True
      then obtain e cs' where cs: "cs = e # cs'"
        using nq "2.prems" by (cases cs) auto
      show ?thesis
      proof (cases "e = CHR ''u''")
        case True
        with nq \<open>c = backslash\<close> cs "2.prems" "2.IH"(1) [of e cs'] show ?thesis
          by (fastforce split: if_splits option.splits)
      next
        case False
        with nq \<open>c = backslash\<close> cs "2.prems" "2.IH"(2) [of e cs'] show ?thesis
          by (fastforce split: if_splits option.splits)
      qed
    qed
  qed
qed

lemma next_token_shorter: "next_token s = Some (t, r) \<Longrightarrow> length r < length s"
proof -
  assume a: "next_token s = Some (t, r)"
  have le: "length (dropWhile is_json_space s) \<le> length s"
    by (rule length_dropWhile_le)
  from a obtain c cs where d: "dropWhile is_json_space s = c # cs"
    by (cases "dropWhile is_json_space s") (auto simp: next_token_def)
  have "length r \<le> length cs"
  proof (cases "punctuation c")
    case (Some p)
    with a d show ?thesis by (simp add: next_token_def)
  next
    case None
    show ?thesis
    proof (cases "c = dquote")
      case True
      with a d None obtain v where "lex_string [] cs = Some (v, r)"
        by (auto simp: next_token_def)
      then show ?thesis using lex_string_shorter by fastforce
    next
      case False
      with a d None have "r = dropWhile is_digit cs"
        by (auto simp: next_token_def split: if_splits)
      then show ?thesis by (simp add: length_dropWhile_le)
    qed
  qed
  with d le show ?thesis by simp
qed

function tokens :: "string \<Rightarrow> token list option" where
  "tokens s =
     (if dropWhile is_json_space s = [] then Some []
      else case next_token s of
        None \<Rightarrow> None
      | Some (t, rest) \<Rightarrow> map_option (Cons t) (tokens rest))"
  by pat_completeness auto
termination
  by (relation "measure length") (auto dest: next_token_shorter)

text \<open>An integer literal of the JSON grammar, within the range of \<open>int64\<close>.\<close>

fun digits_value :: "int \<Rightarrow> string \<Rightarrow> int" where
  "digits_value acc [] = acc"
| "digits_value acc (c # cs) = digits_value (acc * 10 + (byte c - 0x30)) cs"

definition int_literal :: "string \<Rightarrow> int option" where
  "int_literal s =
     (let ds = (if take 1 s = ''-'' then drop 1 s else s);
          v = digits_value 0 ds;
          i = (if take 1 s = ''-'' then - v else v)
      in
      if ds = [] \<or> (take 1 ds = ''0'' \<and> length ds > 1) then None
      else if i < - 9223372036854775808 \<or> 9223372036854775807 < i then None
      else Some i)"

datatype jvalue = JString string | JInt int | JStrings "string list"

definition ascii_lower :: "string \<Rightarrow> string" where
  "ascii_lower s =
     map (\<lambda>c. if 0x41 \<le> byte c \<and> byte c \<le> 0x5A then char_of (byte c + 32) else c) s"

definition zero_IncomingMessage :: IncomingMessage where
  "zero_IncomingMessage =
     \<lparr>in_Type = [], in_ID = [], in_From = [], in_Chat = [], in_Content = [], in_Media = [],
      in_FromName = [], in_Status = [], in_Error = [], in_Timestamp = 0, in_Signature = []\<rparr>"

definition bind_string ::
  "string \<Rightarrow> string \<Rightarrow> IncomingMessage \<Rightarrow> IncomingMessage option" where
  "bind_string k v m =
     (if k = ''type'' then Some (m\<lparr>in_Type := v\<rparr>)
      else if k = ''id'' then Some (m\<lparr>in_ID := v\<rparr>)
      else if k = ''from'' then Some (m\<lparr>in_From := v\<rparr>)
      else if k = ''chat'' then Some (m\<lparr>in_Chat := v\<rparr>)
      else if k = ''content'' then Some (m\<lparr>in_Content := v\<rparr>)
      else if k = ''from_name'' then Some (m\<lparr>in_FromName := v\<rparr>)
      else if k = ''status'' then Some (m\<lparr>in_Status := v\<rparr>)
      else if k = ''error'' then Some (m\<lparr>in_Error := v\<rparr>)
      else if k = ''signature'' then Some (m\<lparr>in_Signature := v\<rparr>)
      else if k = ''media'' \<or> k = ''timestamp'' then None
      else Some m)"

definition string_fields :: "string list" where
  "string_fields =
     [''type'', ''id'', ''from'', ''chat'', ''content'', ''from_name'', ''status'', ''error'',
      ''signature'']"

definition bind_member ::
  "string \<Rightarrow> jvalue \<Rightarrow> IncomingMessage \<Rightarrow> IncomingMessage option" where
  "bind_member key v m =
     (let k = ascii_lower key in
      if list_ex (\<lambda>c. 0x80 \<le> byte c) key then None
      else case v of
        JString s \<Rightarrow> bind_string k s m
      | JInt i \<Rightarrow>
          if k = ''timestamp'' then Some (m\<lparr>in_Timestamp := i\<rparr>)
          else if k = ''media'' \<or> k \<in> set string_fields then None
          else Some m
      | JStrings ss \<Rightarrow>
          if k = ''media'' then Some (m\<lparr>in_Media := ss\<rparr>)
          else if k = ''timestamp'' \<or> k \<in> set string_fields then None
          else Some m)"

text \<open>The strings of an array after its first element has been announced: a string,
  then a comma and more, or the closing bracket.\<close>

fun parse_array :: "string list \<Rightarrow> token list \<Rightarrow> (string list \<times> token list) option" where
  "parse_array acc [] = None"
| "parse_array acc [t] = None"
| "parse_array acc (t # u # ts) =
     (case t of
        TString v \<Rightarrow>
          (case u of
             TComma \<Rightarrow> parse_array (acc @ [v]) ts
           | TRBrack \<Rightarrow> Some (acc @ [v], ts)
           | _ \<Rightarrow> None)
      | _ \<Rightarrow> None)"

definition parse_value :: "token list \<Rightarrow> (jvalue \<times> token list) option" where
  "parse_value ts =
     (case ts of
        [] \<Rightarrow> None
      | t # ts1 \<Rightarrow>
         (case t of
            TString v \<Rightarrow> Some (JString v, ts1)
          | TNumber n \<Rightarrow> map_option (\<lambda>i. (JInt i, ts1)) (int_literal n)
          | TLBrack \<Rightarrow>
              (if take 1 ts1 = [TRBrack] then Some (JStrings [], drop 1 ts1)
               else map_option (\<lambda>(ss, rest). (JStrings ss, rest)) (parse_array [] ts1))
          | _ \<Rightarrow> None))"

lemma parse_array_shorter: "parse_array acc ts = Some (ss, r) \<Longrightarrow> length r < length ts"
  by (induction acc ts rule: parse_array.induct) (auto split: token.splits)

lemma parse_value_shorter: "parse_value ts = Some (v, r) \<Longrightarrow> length r < length ts"
  by (cases ts)
    (auto simp: parse_value_def split: token.splits if_splits dest: parse_array_shorter)

text \<open>The members of an object after its opening brace, each bound as it is read.\<close>

function parse_members :: "token list \<Rightarrow> IncomingMessage \<Rightarrow> IncomingMessage option" where
  "parse_members ts m =
     (if length ts < 2 then None
      else case (ts ! 0, ts ! 1) of
        (TString k, TColon) \<Rightarrow>
          (case parse_value (drop 2 ts) of
             None \<Rightarrow> None
           | Some (v, rest) \<Rightarrow>
              (case bind_member k v m of
                 None \<Rightarrow> None
               | Some m' \<Rightarrow>
                  if rest = [TRBrace] then Some m'
                  else if take 1 rest = [TComma] then parse_members (drop 1 rest) m'
                  else None))
      | _ \<Rightarrow> None)"
  by pat_completeness auto
termination
  by (relation "measure (\<lambda>(ts, m). length ts)") (auto dest!: parse_value_shorter)

definition Unmarshal_flat :: "string \<Rightarrow> IncomingMessage option" where
  "Unmarshal_flat data =
     (case tokens data of
        None \<Rightarrow> None
      | Some toks \<Rightarrow>
         if toks = [TLBrace, TRBrace] then Some zero_IncomingMessage
         else if take 1 toks = [TLBrace] then parse_members (drop 1 toks) zero_IncomingMessage
         else None)"

section \<open>MessageValidator\<close>

definition calculateSignature :: "MessageValidator \<Rightarrow> string \<Rightarrow> string" where
  "calculateSignature v data =
     hex_EncodeToString (hmac_sha256 (bytes_of (hmacKey v)) (bytes_of data))"

definition validateMessageType :: "string \<Rightarrow> error option" where
  "validateMessageType msgType =
     (if msgType \<in> set [MessageTypeMessage, MessageTypeStatus, MessageTypeError,
                         MessageTypePing, MessageTypePong]
      then None else Some (InvalidMessageType msgType))"

definition validatePhoneNumber :: "string \<Rightarrow> error option" where
  "validatePhoneNumber phone =
     (if phone = [] then Some PhoneEmpty
      else if length phone < 1 \<or> length phone > 50 then Some PhoneLength
      else None)"

text \<open>The mapping given to \<open>strings.Map\<close> returns -1 on these runes.\<close>

definition dropped_control :: "rune \<Rightarrow> bool" where
  "dropped_control r \<longleftrightarrow> r < 32 \<and> r \<noteq> 0x0A \<and> r \<noteq> 0x0D \<and> r \<noteq> 0x09"

text \<open>The three rewriting steps of \<open>sanitizeContent\<close>, in its order.\<close>

definition cleaned :: "string \<Rightarrow> string" where
  "cleaned content = TrimSpace (ReplaceAll_NUL (Map_drop dropped_control content))"

definition sanitizeContent :: "string \<Rightarrow> error + string" where
  "sanitizeContent content =
     (if length content > MaxContentLength then Inl ContentTooLong
      else Inr (cleaned content))"

definition validExtensions :: "string list" where
  "validExtensions = [''.jpg'', ''.jpeg'', ''.png'', ''.gif'', ''.mp4'', ''.mp3'', ''.pdf'', ''.txt'']"

definition validateMediaPath :: "string \<Rightarrow> error option" where
  "validateMediaPath path =
     (if Contains path ''..'' then Some DirectoryTraversal
      else if list_ex (\<lambda>ext. HasSuffix (ToLower path) ext) validExtensions then None
      else Some InvalidExtension)"

text \<open>The loop over \<open>msg.Media\<close>, which returns at the first path that fails.\<close>

fun validateMedia :: "string list \<Rightarrow> error option" where
  "validateMedia [] = None"
| "validateMedia (mediaPath # rest) =
     (case validateMediaPath mediaPath of
        Some e \<Rightarrow> Some (InvalidMediaPath e)
      | None \<Rightarrow> validateMedia rest)"

text \<open>\<open>json.Marshal\<close> cannot fail on these structs, so \<open>signMessage\<close> and
  \<open>VerifySignature\<close> never take their marshalling error branch.\<close>

definition signMessage :: "MessageValidator \<Rightarrow> OutgoingMessage \<Rightarrow> error + OutgoingMessage" where
  "signMessage v msg =
     (if length (hmacKey v) = 0 then Inr msg
      else Inr (msg\<lparr>out_Signature :=
                  calculateSignature v (marshalOutgoing (msg\<lparr>out_Signature := []\<rparr>))\<rparr>))"

text \<open>\<open>ValidateOutgoing\<close> updates the message in place; the model returns the updated
  message on success. \<open>now\<close> is \<open>time.Now().Unix()\<close>.\<close>

definition ValidateOutgoing ::
  "MessageValidator \<Rightarrow> int \<Rightarrow> OutgoingMessage \<Rightarrow> error + OutgoingMessage" where
  "ValidateOutgoing v now msg =
     (if out_Type msg \<noteq> MessageTypeMessage then Inl OutgoingTypeNotMessage
      else case validatePhoneNumber (out_To msg) of
        Some e \<Rightarrow> Inl (InvalidRecipient e)
      | None \<Rightarrow>
         (case sanitizeContent (out_Content msg) of
            Inl e \<Rightarrow> Inl (ContentValidationFailed e)
          | Inr sanitized \<Rightarrow>
             (case validateMedia (out_Media msg) of
                Some e \<Rightarrow> Inl e
              | None \<Rightarrow>
                 (case signMessage v
                         (msg\<lparr>out_Content := sanitized,
                              out_Timestamp :=
                                (if out_Timestamp msg = 0 then now else out_Timestamp msg)\<rparr>) of
                    Inl e \<Rightarrow> Inl (SignFailed e)
                  | Inr msg' \<Rightarrow> Inr msg'))))"

definition VerifySignature :: "MessageValidator \<Rightarrow> IncomingMessage \<Rightarrow> error option" where
  "VerifySignature v msg =
     (if length (hmacKey v) = 0 then None
      else if in_Signature msg = [] then Some MissingSignature
      else if in_Signature msg
                \<noteq> calculateSignature v (marshalIncoming (msg\<lparr>in_Signature := []\<rparr>))
      then Some InvalidSignature
      else None)"

definition validateIncomingMessage ::
  "MessageValidator \<Rightarrow> IncomingMessage \<Rightarrow> error + IncomingMessage" where
  "validateIncomingMessage v msg =
     (if in_From msg = [] then Inl MissingFrom
      else case validatePhoneNumber (in_From msg) of
        Some e \<Rightarrow> Inl (InvalidSender e)
      | None \<Rightarrow>
         if in_Content msg = [] \<and> length (in_Media msg) = 0 then Inl MissingContentOrMedia
         else
           (case (if in_Content msg \<noteq> [] then sanitizeContent (in_Content msg)
                  else Inr (in_Content msg)) of
              Inl e \<Rightarrow> Inl (ContentValidationFailed e)
            | Inr sanitized \<Rightarrow>
               (case validateMedia (in_Media msg) of
                  Some e \<Rightarrow> Inl e
                | None \<Rightarrow>
                   (case VerifySignature v (msg\<lparr>in_Content := sanitized\<rparr>) of
                      Some e \<Rightarrow> Inl (SignatureVerificationFailed e)
                    | None \<Rightarrow> Inr (msg\<lparr>in_Content := sanitized\<rparr>)))))"

definition validateIncomingStatus ::
  "MessageValidator \<Rightarrow> IncomingMessage \<Rightarrow> error + IncomingMessage" where
  "validateIncomingStatus v msg =
     (if in_ID msg = [] then Inl StatusMissingID
      else if in_Status msg = [] then Inl StatusMissingStatus
      else if in_Status msg \<notin> set [StatusDelivered, StatusRead, StatusSent, StatusFailed]
      then Inl (InvalidStatus (in_Status msg))
      else Inr msg)"

definition validateIncomingError ::
  "MessageValidator \<Rightarrow> IncomingMessage \<Rightarrow> error + IncomingMessage" where
  "validateIncomingError v msg =
     (if in_Error msg = [] then Inl ErrorMissing
      else if length (in_Error msg) > 500 then Inl ErrorTooLong
      else Inr msg)"

definition validateIncomingPingPong ::
  "MessageValidator \<Rightarrow> IncomingMessage \<Rightarrow> error + IncomingMessage" where
  "validateIncomingPingPong v msg = Inr msg"

text \<open>\<open>json.Unmarshal\<close> into an \<open>IncomingMessage\<close> is a parameter of \<open>ValidateIncoming\<close>:
  \<open>None\<close> is its error.\<close>

definition ValidateIncoming ::
  "(string \<Rightarrow> IncomingMessage option) \<Rightarrow> MessageValidator \<Rightarrow> string
     \<Rightarrow> error + IncomingMessage" where
  "ValidateIncoming unmarshal v data =
     (case unmarshal data of
        None \<Rightarrow> Inl InvalidJSON
      | Some msg \<Rightarrow>
         (case validateMessageType (in_Type msg) of
            Some e \<Rightarrow> Inl e
          | None \<Rightarrow>
             if in_Type msg = MessageTypeMessage then validateIncomingMessage v msg
             else if in_Type msg = MessageTypeStatus then validateIncomingStatus v msg
             else if in_Type msg = MessageTypeError then validateIncomingError v msg
             else if in_Type msg = MessageTypePing \<or> in_Type msg = MessageTypePong
             then validateIncomingPingPong v msg
             else Inl (UnsupportedMessageType (in_Type msg))))"

subsection \<open>Traversal segments\<close>

text \<open>The wording of the specification: a path contains a parent-directory traversal
  segment when one of its components, between separators, is \<open>..\<close>.\<close>

fun path_segments_from :: "string \<Rightarrow> string \<Rightarrow> string list" where
  "path_segments_from cur [] = [cur]"
| "path_segments_from cur (c # cs) =
     (if c = CHR ''/'' \<or> c = backslash then cur # path_segments_from [] cs
      else path_segments_from (cur @ [c]) cs)"

definition path_segments :: "string \<Rightarrow> string list" where
  "path_segments p = path_segments_from [] p"

definition has_traversal_segment :: "string \<Rightarrow> bool" where
  "has_traversal_segment p \<longleftrightarrow> ''..'' \<in> set (path_segments p)"

section \<open>WhatsAppChannel\<close>

text \<open>
  \<open>url.Parse\<close> of \<open>net/url\<close> is a parameter of the channel's functions (\<open>None\<close> is its
  error). Of a parsed URL the channel reads the scheme, the query parameter \<open>token\<close>,
  and the text of the URL once that parameter is deleted.
\<close>

record URL =
  Scheme :: string
  query_token :: string
  without_token :: string

datatype chan_error =
    BridgeURLEmpty
  | InvalidURLFormat
  | SchemeNotWebSocket string
  | InvalidBridgeURL chan_error
  | InvalidURL
  | SchemeMustBeWsOrWss
  | ConnectionFailed
  | MissingAuthHeaders
  | InvalidServerTimestamp
  | ServerTimestampTooOld
  | BridgeValidationFailed chan_error
  | ConnectionInProgress
  | FailedToConnect chan_error
  | NotConnected
  | WriteFailed

definition validateBridgeURL :: "(string \<Rightarrow> URL option) \<Rightarrow> string \<Rightarrow> chan_error option" where
  "validateBridgeURL url_Parse bridgeURL =
     (if bridgeURL = [] then Some BridgeURLEmpty
      else case url_Parse bridgeURL of
        None \<Rightarrow> Some InvalidURLFormat
      | Some u \<Rightarrow>
         if Scheme u \<noteq> ''wss'' \<and> Scheme u \<noteq> ''ws''
         then Some (SchemeNotWebSocket (Scheme u))
         else None)"

definition extractAuthToken :: "(string \<Rightarrow> URL option) \<Rightarrow> string \<Rightarrow> string \<times> string" where
  "extractAuthToken url_Parse bridgeURL =
     (case url_Parse bridgeURL of
        None \<Rightarrow> (bridgeURL, [])
      | Some u \<Rightarrow>
         if query_token u \<noteq> [] then (without_token u, query_token u)
         else (bridgeURL, []))"

definition getHMACKey :: string where
  "getHMACKey = []"

record WhatsAppConfig =
  Enabled :: bool
  BridgeURL :: string
  AllowFrom :: "string list"
  FBPhoneNumberID :: string
  FBAccessToken :: string
  FBAPIVersion :: string

text \<open>A web socket connection is the list of frames handed to it for writing.\<close>

datatype frame = TextMessage string | PingMessage string | PongMessage string

record Conn =
  written :: "frame list"

text \<open>The fields of the channel; \<open>running\<close> is the flag of the embedded \<open>BaseChannel\<close>.\<close>

record WhatsAppChannel =
  running :: bool
  config :: WhatsAppConfig
  validator :: MessageValidator
  retryManager :: ConnectionRetry
  conn :: "Conn option"
  connected :: bool
  connecting :: bool
  url :: string
  authToken :: string
  channel_hmacKey :: string
  pingInterval :: duration
  pongTimeout :: duration

definition NewWhatsAppChannel ::
  "(string \<Rightarrow> URL option) \<Rightarrow> WhatsAppConfig \<Rightarrow> chan_error + WhatsAppChannel" where
  "NewWhatsAppChannel url_Parse cfg =
     (case validateBridgeURL url_Parse (BridgeURL cfg) of
        Some e \<Rightarrow> Inl (InvalidBridgeURL e)
      | None \<Rightarrow>
         Inr \<lparr>running = False,
              config = cfg,
              validator = NewMessageValidator getHMACKey,
              retryManager = NewConnectionRetry,
              conn = None,
              connected = False,
              connecting = False,
              url = fst (extractAuthToken url_Parse (BridgeURL cfg)),
              authToken = snd (extractAuthToken url_Parse (BridgeURL cfg)),
              channel_hmacKey = getHMACKey,
              pingInterval = 30 * Second,
              pongTimeout = 10 * Second\<rparr>)"

text \<open>
  What the network and the clock answer during one call: the parser, the result of
  \<open>DialContext\<close> on a URL (a failure, or a handshake whose response carries the headers
  \<open>X-Server-Nonce\<close> and \<open>X-Server-Timestamp\<close>), and for a timestamp text its age in
  nanoseconds (\<open>time.Parse\<close> then \<open>time.Since\<close>; \<open>None\<close> when it does not parse).
\<close>

datatype dial_result = DialFailed | Handshake string string

record world =
  url_Parse :: "string \<Rightarrow> URL option"
  DialContext :: "string \<Rightarrow> dial_result"
  Since :: "string \<Rightarrow> int option"

datatype goroutine = Listen | Keepalive | AttemptReconnection

text \<open>The result of a call on the channel: the error returned, the channel afterwards,
  the URLs dialled, the goroutines started with \<open>go\<close>, and the delays slept.\<close>

record step =
  failure :: "chan_error option"
  chan :: WhatsAppChannel
  dialled :: "string list"
  spawned :: "goroutine list"
  slept :: "duration list"

definition validateBridgeResponse ::
  "(string \<Rightarrow> int option) \<Rightarrow> string \<Rightarrow> string \<Rightarrow> chan_error option" where
  "validateBridgeResponse since serverNonce serverTimestamp =
     (if serverNonce = [] \<and> serverTimestamp = [] then None
      else if serverNonce = [] \<or> serverTimestamp = [] then Some MissingAuthHeaders
      else case since serverTimestamp of
        None \<Rightarrow> Some InvalidServerTimestamp
      | Some age \<Rightarrow> if age > 300000000000 then Some ServerTimestampTooOld else None)"

definition connect :: "world \<Rightarrow> WhatsAppChannel \<Rightarrow> step" where
  "connect w c =
     (case url_Parse w (url c) of
        None \<Rightarrow>
          \<lparr>failure = Some InvalidURL, chan = c, dialled = [], spawned = [], slept = []\<rparr>
      | Some u \<Rightarrow>
         if Scheme u \<noteq> ''wss'' \<and> Scheme u \<noteq> ''ws''
         then \<lparr>failure = Some SchemeMustBeWsOrWss, chan = c, dialled = [], spawned = [],
                slept = []\<rparr>
         else
           (case DialContext w (url c) of
              DialFailed \<Rightarrow>
                \<lparr>failure = Some ConnectionFailed, chan = c, dialled = [url c], spawned = [],
                  slept = []\<rparr>
            | Handshake serverNonce serverTimestamp \<Rightarrow>
               (case validateBridgeResponse (Since w) serverNonce serverTimestamp of
                  Some e \<Rightarrow>
                    \<lparr>failure = Some (BridgeValidationFailed e), chan = c, dialled = [url c],
                      spawned = [], slept = []\<rparr>
                | None \<Rightarrow>
                    \<lparr>failure = None,
                      chan = c\<lparr>conn := Some \<lparr>written = []\<rparr>, connected := True,
                               connecting := False\<rparr>,
                      dialled = [url c], spawned = [], slept = []\<rparr>)))"


text \<open>\<open>handlePing\<close>: \<open>now\<close> is \<open>time.Now().Unix()\<close>; the result of \<open>WriteControl\<close> is not
  looked at by the code.\<close>

definition handlePing :: "int \<Rightarrow> WhatsAppChannel \<Rightarrow> IncomingMessage \<Rightarrow> WhatsAppChannel" where
  "handlePing now c msg =
     (case ValidateOutgoing (validator c) now
             \<lparr>out_Type = MessageTypePong, out_To = [], out_Content = [], out_Media = [],
              out_Timestamp = now, out_Signature = []\<rparr> of
        Inl e \<Rightarrow> c
      | Inr pong \<Rightarrow>
         (case conn c of
            None \<Rightarrow> c
          | Some cn \<Rightarrow>
              c\<lparr>conn := Some (cn\<lparr>written := written cn @ [PongMessage (marshalOutgoing pong)]\<rparr>)\<rparr>))"


definition attemptReconnection :: "world \<Rightarrow> WhatsAppChannel \<Rightarrow> step" where
  "attemptReconnection w c =
     (if \<not> ShouldRetry (retryManager c)
      then \<lparr>failure = None, chan = c, dialled = [], spawned = [], slept = []\<rparr>
      else
        let delay = fst (NextDelay (retryManager c));
            s = connect w (c\<lparr>retryManager := snd (NextDelay (retryManager c))\<rparr>)
        in
        case failure s of
          Some e \<Rightarrow> s\<lparr>failure := None, slept := [delay]\<rparr>
        | None \<Rightarrow>
            s\<lparr>chan := (chan s)\<lparr>retryManager := Reset (retryManager (chan s))\<rparr>,
              slept := [delay]\<rparr>)"





subsection \<open>The goroutines of a started channel\<close>









subsection \<open>A parser for plain bridge URLs\<close>

text \<open>
  A model of \<open>url.Parse\<close> for URLs of the shape \<open>scheme://host[:port][/path]\<close> written with
  letters, digits and \<open>. - _ : /\<close> only, which carry no query. On such a text it returns
  what \<open>net/url\<close> returns: the scheme is found by \<open>getScheme\<close> and lower-cased, and a
  port that is not a number is an error. Every other text is reported as an error,
  which \<open>net/url\<close> does not always do, so statements about all URLs take the parser as a
  parameter and this one is used at concrete URLs.
\<close>

definition is_alpha :: "char \<Rightarrow> bool" where
  "is_alpha c \<longleftrightarrow> (0x61 \<le> byte c \<and> byte c \<le> 0x7A) \<or> (0x41 \<le> byte c \<and> byte c \<le> 0x5A)"

definition plain_url_char :: "char \<Rightarrow> bool" where
  "plain_url_char c \<longleftrightarrow> is_alpha c \<or> is_digit c \<or> c \<in> set ''.-_:/''"

text \<open>\<open>getScheme\<close>: \<open>pre\<close> is the text already scanned; \<open>None\<close> is the error "missing
  protocol scheme".\<close>

fun scan_scheme :: "string \<Rightarrow> string \<Rightarrow> string \<Rightarrow> (string \<times> string) option" where
  "scan_scheme rawURL pre [] = Some ([], rawURL)"
| "scan_scheme rawURL pre (c # cs) =
     (if is_alpha c then scan_scheme rawURL (pre @ [c]) cs
      else if is_digit c \<or> c = CHR ''+'' \<or> c = CHR ''-'' \<or> c = CHR ''.'' then
        (if pre = [] then Some ([], rawURL) else scan_scheme rawURL (pre @ [c]) cs)
      else if c = CHR '':'' then (if pre = [] then None else Some (pre, cs))
      else Some ([], rawURL))"

definition getScheme :: "string \<Rightarrow> (string \<times> string) option" where
  "getScheme rawURL = scan_scheme rawURL [] rawURL"

definition Parse_plain :: "string \<Rightarrow> URL option" where
  "Parse_plain rawURL =
     (if \<not> list_all plain_url_char rawURL then None
      else case getScheme rawURL of
        None \<Rightarrow> None
      | Some (scheme, rest) \<Rightarrow>
         if scheme = [] \<or> \<not> prefix ''//'' rest then None
         else if dropWhile (\<lambda>c. c \<noteq> CHR '':'') (takeWhile (\<lambda>c. c \<noteq> CHR ''/'') (drop 2 rest)) \<noteq> []
               \<and> \<not> list_all is_digit
                     (drop 1 (dropWhile (\<lambda>c. c \<noteq> CHR '':'')
                                (takeWhile (\<lambda>c. c \<noteq> CHR ''/'') (drop 2 rest))))
         then None
         else Some \<lparr>Scheme = ascii_lower scheme, query_token = [], without_token = rawURL\<rparr>)"

section \<open>Properties of the back-off\<close>

lemma NewConnectionRetry_eq: "NewConnectionRetry = retry_after 0 1000000000"
  by (simp add: NewConnectionRetry_def retry_after_def MaxReconnectAttempts_def
      InitialReconnectDelay_def MaxReconnectDelay_def Second_def)

lemma NextDelay_step:
  "NextDelay (retry_after 0 1000000000) = (1000000000, retry_after 1 2000000000)"
  "NextDelay (retry_after 1 2000000000) = (2000000000, retry_after 2 4000000000)"
  "NextDelay (retry_after 2 4000000000) = (4000000000, retry_after 3 8000000000)"
  "NextDelay (retry_after 3 8000000000) = (8000000000, retry_after 4 16000000000)"
  "NextDelay (retry_after 4 16000000000) = (16000000000, retry_after 5 30000000000)"
  "NextDelay (retry_after 5 30000000000) = (0, retry_after 5 30000000000)"
  by (simp_all add: NextDelay_def retry_after_def Let_def word_sless_alt)

lemma NextDelays_exhausted:
  "NextDelays k (retry_after 5 30000000000) = (replicate k 0, retry_after 5 30000000000)"
  by (induction k) (simp_all add: NextDelay_step)

lemma NextDelays_append:
  "NextDelays (m + n) r =
     (case NextDelays m r of (ds, r') \<Rightarrow>
        (case NextDelays n r' of (es, r'') \<Rightarrow> (ds @ es, r'')))"
  by (induction m arbitrary: r) (simp_all split: prod.splits)

lemma NextDelays_first_five:
  "NextDelays 0 (retry_after 0 1000000000) = ([], retry_after 0 1000000000)"
  "NextDelays 1 (retry_after 0 1000000000) = ([1000000000], retry_after 1 2000000000)"
  "NextDelays 2 (retry_after 0 1000000000) =
     ([1000000000, 2000000000], retry_after 2 4000000000)"
  "NextDelays 3 (retry_after 0 1000000000) =
     ([1000000000, 2000000000, 4000000000], retry_after 3 8000000000)"
  "NextDelays 4 (retry_after 0 1000000000) =
     ([1000000000, 2000000000, 4000000000, 8000000000], retry_after 4 16000000000)"
  "NextDelays 5 (retry_after 0 1000000000) =
     ([1000000000, 2000000000, 4000000000, 8000000000, 16000000000],
      retry_after 5 30000000000)"
  by (simp_all add: eval_nat_numeral NextDelay_step)

lemma NextDelays_default:
  "NextDelays (5 + k) (retry_after 0 1000000000) =
     ([1000000000, 2000000000, 4000000000, 8000000000, 16000000000] @ replicate k 0,
      retry_after 5 30000000000)"
  by (simp only: NextDelays_append NextDelays_first_five NextDelays_exhausted prod.case)

lemma retry_after_observers:
  "ShouldRetry (retry_after a d) = (a < 5)"
  "GetAttempts (retry_after a d) = a"
  "Reset (retry_after a d) = retry_after 0 1000000000"
  by (simp_all add: ShouldRetry_def GetAttempts_def Reset_def retry_after_def)

text \<open>
  C5. From a fresh \<open>NewConnectionRetry\<close>, \<open>n\<close> successive calls of \<open>NextDelay\<close> return the
  first \<open>n\<close> entries of 1s, 2s, 4s, 8s, 16s, 0, 0, ...; after them \<open>ShouldRetry\<close> holds
  exactly when \<open>n < 5\<close>, the number of attempts consumed is \<open>min n 5\<close>, and \<open>Reset\<close>
  gives back the fresh state, from which the sequence starts again.
\<close>

theorem NextDelay_default_sequence:
  "fst (NextDelays n NewConnectionRetry) =
     take n [1 * Second, 2 * Second, 4 * Second, 8 * Second, 16 * Second]
       @ replicate (n - 5) 0
   \<and> ShouldRetry (snd (NextDelays n NewConnectionRetry)) = (n < 5)
   \<and> GetAttempts (snd (NextDelays n NewConnectionRetry)) = int (min n 5)
   \<and> Reset (snd (NextDelays n NewConnectionRetry)) = NewConnectionRetry"
proof (cases "n < 5")
  case True
  then have "n = 0 \<or> n = 1 \<or> n = 2 \<or> n = 3 \<or> n = 4"
    by arith
  then show ?thesis
    by (elim disjE)
      (simp_all only: NewConnectionRetry_eq NextDelays_first_five,
       simp_all add: retry_after_observers Second_def)
next
  case False
  then obtain k where n: "n = 5 + k"
    using le_Suc_ex [of 5 n] by auto
  show ?thesis
    unfolding n NewConnectionRetry_eq NextDelays_default
    by (simp add: retry_after_observers Second_def)
qed

section \<open>Media paths\<close>

lemma Contains_iff: "Contains s sub \<longleftrightarrow> (\<exists>ps ss. s = ps @ sub @ ss)"
proof (induction s)
  case Nil
  then show ?case by auto
next
  case (Cons c cs)
  show ?case
  proof
    assume "Contains (c # cs) sub"
    then consider "prefix sub (c # cs)" | "Contains cs sub" by auto
    then show "\<exists>ps ss. c # cs = ps @ sub @ ss"
    proof cases
      case 1
      then obtain ss where "c # cs = sub @ ss" by (auto simp: prefix_def)
      then have "c # cs = [] @ sub @ ss" by simp
      then show ?thesis by blast
    next
      case 2
      with Cons.IH obtain ps ss where "cs = ps @ sub @ ss" by blast
      then have "c # cs = (c # ps) @ sub @ ss" by simp
      then show ?thesis by blast
    qed
  next
    assume "\<exists>ps ss. c # cs = ps @ sub @ ss"
    then obtain ps ss where e: "c # cs = ps @ sub @ ss" by blast
    show "Contains (c # cs) sub"
    proof (cases ps)
      case Nil
      with e have "prefix sub (c # cs)" by (simp add: prefix_def)
      then show ?thesis by simp
    next
      case (Cons a ps')
      with e have "cs = ps' @ sub @ ss" by simp
      with Cons.IH have "Contains cs sub" by blast
      then show ?thesis by simp
    qed
  qed
qed

lemma path_segments_from_contains:
  "''..'' \<in> set (path_segments_from cur s) \<Longrightarrow> Contains (cur @ s) ''..''"
proof (induction cur s rule: path_segments_from.induct)
  case (1 cur)
  then show ?case by (auto simp: Contains_iff intro: exI [of _ "[]"])
next
  case (2 cur c cs)
  show ?case
  proof (cases "c = CHR ''/'' \<or> c = backslash")
    case True
    with "2.prems" consider "cur = ''..''" | "''..'' \<in> set (path_segments_from [] cs)"
      by auto
    then show ?thesis
    proof cases
      case 1
      then have "cur @ c # cs = [] @ ''..'' @ (c # cs)" by simp
      then show ?thesis unfolding Contains_iff by blast
    next
      case 2
      with "2.IH"(1) True have "Contains cs ''..''" by simp
      then obtain ps ss where "cs = ps @ ''..'' @ ss" unfolding Contains_iff by blast
      then have "cur @ c # cs = (cur @ c # ps) @ ''..'' @ ss" by simp
      then show ?thesis unfolding Contains_iff by blast
    qed
  next
    case False
    with "2.prems" "2.IH"(2) have "Contains ((cur @ [c]) @ cs) ''..''" by simp
    then show ?thesis by simp
  qed
qed

lemma traversal_segment_contains: "has_traversal_segment p \<Longrightarrow> Contains p ''..''"
  using path_segments_from_contains [of "[]" p]
  by (simp add: has_traversal_segment_def path_segments_def)

lemma validateMedia_None_iff:
  "validateMedia ps = None \<longleftrightarrow> list_all (\<lambda>p. validateMediaPath p = None) ps"
  by (induction ps) (auto split: option.splits)

lemma validateMedia_Some:
  "validateMedia ps = Some e \<Longrightarrow> \<exists>e'. e = InvalidMediaPath e'"
  by (induction ps) (auto split: option.splits)

lemma validateMedia_traversal:
  assumes "list_ex has_traversal_segment paths"
  shows "\<exists>e. validateMedia paths = Some (InvalidMediaPath e)"
proof -
  from assms obtain q where q: "q \<in> set paths" "has_traversal_segment q"
    by (auto simp: list_ex_iff)
  then have "validateMediaPath q \<noteq> None"
    by (simp add: validateMediaPath_def traversal_segment_contains)
  with q(1) have "\<not> list_all (\<lambda>q. validateMediaPath q = None) paths"
    by (auto simp: list_all_iff)
  then obtain e where "validateMedia paths = Some e"
    using validateMedia_None_iff [of paths] by (cases "validateMedia paths") auto
  then show ?thesis
    using validateMedia_Some by blast
qed

text \<open>The path of the specification's example.\<close>

lemma passwd_has_traversal: "has_traversal_segment ''../../etc/passwd.png''"
  by code_simp

text \<open>
  C8 as stated fails: \<open>a..b.png\<close> has an allow-listed extension and no component equal
  to \<open>..\<close>, and is rejected all the same.
\<close>

theorem traversal_substring_counterexample:
  "\<not> has_traversal_segment ''a..b.png''
   \<and> HasSuffix (ToLower ''a..b.png'') ''.png''
   \<and> ''.png'' \<in> set validExtensions
   \<and> validateMediaPath ''a..b.png'' = Some DirectoryTraversal"
  by code_simp

section \<open>Outbound validation\<close>

lemma segments_Nil: "segments [] = []"
  by simp

lemma cleaned_Nil: "cleaned [] = []"
  by (simp add: cleaned_def TrimSpace_def ReplaceAll_NUL_def Map_drop_def trim_segments_def)

lemma sanitizeContent_Nil: "sanitizeContent [] = Inr []"
  by (simp add: sanitizeContent_def cleaned_Nil MaxContentLength_def)

lemma validatePhoneNumber_None_iff:
  "validatePhoneNumber p = None \<longleftrightarrow> 1 \<le> length p \<and> length p \<le> 50"
  by (cases p) (auto simp: validatePhoneNumber_def)

lemma signMessage_fields:
  "signMessage v m = Inr m' \<Longrightarrow>
     out_Type m' = out_Type m \<and> out_To m' = out_To m \<and> out_Content m' = out_Content m
     \<and> out_Media m' = out_Media m \<and> out_Timestamp m' = out_Timestamp m"
  by (auto simp: signMessage_def split: if_splits)

lemma signMessage_total: "\<exists>m'. signMessage v m = Inr m'"
  by (simp add: signMessage_def)

text \<open>
  C10. An outbound message of type \<open>message\<close> whose recipient has 1 to 50 bytes and whose
  content and media are both empty passes \<open>ValidateOutgoing\<close>, with the timestamp set to
  the current time when it was zero and kept otherwise; an inbound message with a valid
  sender and neither content nor media is rejected.
\<close>

theorem ValidateOutgoing_empty_body:
  assumes "out_Type msg = ''message''"
    and "1 \<le> length (out_To msg)" and "length (out_To msg) \<le> 50"
    and "out_Content msg = []" and "out_Media msg = []"
  shows "(\<exists>msg'. ValidateOutgoing v now msg = Inr msg'
            \<and> out_Timestamp msg' = (if out_Timestamp msg = 0 then now else out_Timestamp msg)
            \<and> out_Type msg' = ''message'' \<and> out_To msg' = out_To msg
            \<and> out_Content msg' = [] \<and> out_Media msg' = [])
         \<and> validateIncomingMessage v
              \<lparr>in_Type = ''message'', in_ID = [], in_From = out_To msg, in_Chat = [],
               in_Content = [], in_Media = [], in_FromName = [], in_Status = [], in_Error = [],
               in_Timestamp = 0, in_Signature = []\<rparr> = Inl MissingContentOrMedia"
proof
  let ?m = "msg\<lparr>out_Content := [],
                 out_Timestamp := (if out_Timestamp msg = 0 then now else out_Timestamp msg)\<rparr>"
  obtain msg' where s: "signMessage v ?m = Inr msg'"
    using signMessage_total by blast
  have p: "validatePhoneNumber (out_To msg) = None"
    using assms(2,3) by (simp add: validatePhoneNumber_None_iff)
  have "ValidateOutgoing v now msg = Inr msg'"
    using assms(1,4,5) p s
    by (simp add: ValidateOutgoing_def MessageTypeMessage_def sanitizeContent_Nil)
  moreover from signMessage_fields [OF s] assms
  have "out_Timestamp msg' = (if out_Timestamp msg = 0 then now else out_Timestamp msg)
        \<and> out_Type msg' = ''message'' \<and> out_To msg' = out_To msg
        \<and> out_Content msg' = [] \<and> out_Media msg' = []"
    by simp
  ultimately show "\<exists>msg'. ValidateOutgoing v now msg = Inr msg'
            \<and> out_Timestamp msg' = (if out_Timestamp msg = 0 then now else out_Timestamp msg)
            \<and> out_Type msg' = ''message'' \<and> out_To msg' = out_To msg
            \<and> out_Content msg' = [] \<and> out_Media msg' = []"
    by blast
next
  have "out_To msg \<noteq> []" using assms(2) by auto
  moreover have "validatePhoneNumber (out_To msg) = None"
    using assms(2,3) by (simp add: validatePhoneNumber_None_iff)
  ultimately show "validateIncomingMessage v
              \<lparr>in_Type = ''message'', in_ID = [], in_From = out_To msg, in_Chat = [],
               in_Content = [], in_Media = [], in_FromName = [], in_Status = [], in_Error = [],
               in_Timestamp = 0, in_Signature = []\<rparr> = Inl MissingContentOrMedia"
    by (simp add: validateIncomingMessage_def)
qed

theorem ValidateOutgoing_empty_body_witness:
  "(\<exists>msg'. ValidateOutgoing (NewMessageValidator []) 1700000000
              \<lparr>out_Type = ''message'', out_To = ''+1234567890'', out_Content = [],
               out_Media = [], out_Timestamp = 0, out_Signature = []\<rparr> = Inr msg'
            \<and> out_Timestamp msg' = 1700000000
            \<and> out_Type msg' = ''message'' \<and> out_To msg' = ''+1234567890''
            \<and> out_Content msg' = [] \<and> out_Media msg' = [])
   \<and> validateIncomingMessage (NewMessageValidator [])
        \<lparr>in_Type = ''message'', in_ID = [], in_From = ''+1234567890'', in_Chat = [],
         in_Content = [], in_Media = [], in_FromName = [], in_Status = [], in_Error = [],
         in_Timestamp = 0, in_Signature = []\<rparr> = Inl MissingContentOrMedia"
  using ValidateOutgoing_empty_body
    [of "\<lparr>out_Type = ''message'', out_To = ''+1234567890'', out_Content = [],
          out_Media = [], out_Timestamp = 0, out_Signature = []\<rparr>"
        "NewMessageValidator []" 1700000000]
  by simp

section \<open>The channel\<close>

lemma validateBridgeURL_wss_example:
  "validateBridgeURL Parse_plain ''wss://bridge.example.com'' = None"
  by code_simp

lemma extractAuthToken_wss_example:
  "extractAuthToken Parse_plain ''wss://bridge.example.com'' = (''wss://bridge.example.com'', [])"
  by code_simp

text \<open>
  C9. Every channel that \<open>NewWhatsAppChannel\<close> returns has a validator with the empty
  HMAC key: \<open>VerifySignature\<close> accepts every inbound message, whatever its signature,
  and \<open>signMessage\<close> returns every outbound message unchanged.
\<close>

theorem NewWhatsAppChannel_never_signs:
  assumes "NewWhatsAppChannel parse cfg = Inr c"
  shows "hmacKey (validator c) = [] \<and> channel_hmacKey c = []
         \<and> VerifySignature (validator c) msg = None
         \<and> signMessage (validator c) out = Inr out"
proof -
  from assms have "validator c = NewMessageValidator getHMACKey \<and> channel_hmacKey c = getHMACKey"
    by (auto simp: NewWhatsAppChannel_def split: option.splits)
  then show ?thesis
    by (simp add: getHMACKey_def NewMessageValidator_def VerifySignature_def signMessage_def)
qed

theorem NewWhatsAppChannel_never_signs_witness:
  "\<exists>c. NewWhatsAppChannel Parse_plain
          \<lparr>Enabled = True, BridgeURL = ''wss://bridge.example.com'', AllowFrom = [],
           FBPhoneNumberID = [], FBAccessToken = [], FBAPIVersion = []\<rparr> = Inr c
       \<and> hmacKey (validator c) = [] \<and> channel_hmacKey c = []
       \<and> VerifySignature (validator c)
            \<lparr>in_Type = ''message'', in_ID = [], in_From = ''+1'', in_Chat = [],
             in_Content = ''A'', in_Media = [], in_FromName = [], in_Status = [],
             in_Error = [], in_Timestamp = 0, in_Signature = ''forged''\<rparr> = None
       \<and> signMessage (validator c)
            \<lparr>out_Type = ''message'', out_To = ''+1'', out_Content = ''A'', out_Media = [],
             out_Timestamp = 1, out_Signature = []\<rparr>
           = Inr \<lparr>out_Type = ''message'', out_To = ''+1'', out_Content = ''A'', out_Media = [],
                 out_Timestamp = 1, out_Signature = []\<rparr>"
proof -
  obtain c where c: "NewWhatsAppChannel Parse_plain
          \<lparr>Enabled = True, BridgeURL = ''wss://bridge.example.com'', AllowFrom = [],
           FBPhoneNumberID = [], FBAccessToken = [], FBAPIVersion = []\<rparr> = Inr c"
    by (simp add: NewWhatsAppChannel_def validateBridgeURL_wss_example)
  from NewWhatsAppChannel_never_signs [OF c] c show ?thesis
    by blast
qed

text \<open>
  C1. \<open>handlePing\<close> builds a frame of type \<open>pong\<close> and passes it to \<open>ValidateOutgoing\<close>,
  which accepts the type \<open>message\<close> only: the frame is rejected and \<open>handlePing\<close> returns
  with the channel, and so the frames written to its connection, unchanged.
\<close>

theorem handlePing_writes_nothing:
  "ValidateOutgoing v now
     \<lparr>out_Type = MessageTypePong, out_To = [], out_Content = [], out_Media = [],
      out_Timestamp = now, out_Signature = []\<rparr> = Inl OutgoingTypeNotMessage
   \<and> handlePing now c msg = c"
  by (simp add: handlePing_def ValidateOutgoing_def MessageTypePong_def MessageTypeMessage_def)

section \<open>The bridge URL\<close>

lemma validateBridgeURL_None_iff:
  "validateBridgeURL parse u = None \<longleftrightarrow>
     u \<noteq> [] \<and> (\<exists>p. parse u = Some p \<and> (Scheme p = ''wss'' \<or> Scheme p = ''ws''))"
  by (auto simp: validateBridgeURL_def split: option.splits)

lemma connect_bad_scheme:
  assumes "url_Parse w (url c) = None
           \<or> (\<exists>p. url_Parse w (url c) = Some p \<and> Scheme p \<noteq> ''wss'' \<and> Scheme p \<noteq> ''ws'')"
  shows "failure (connect w c) \<noteq> None \<and> dialled (connect w c) = [] \<and> chan (connect w c) = c"
  using assms by (auto simp: connect_def split: option.splits)

lemma connect_good_scheme:
  assumes "url_Parse w (url c) = Some p" and "Scheme p = ''wss'' \<or> Scheme p = ''ws''"
  shows "dialled (connect w c) = [url c]"
  using assms
  by (auto simp: connect_def split: option.splits dial_result.splits)

text \<open>
  C4 (as amended). \<open>validateBridgeURL\<close> accepts a URL exactly when it is not empty, it
  parses, and its scheme is \<open>wss\<close> or \<open>ws\<close>; no configuration is consulted. When it
  rejects the configured URL, \<open>NewWhatsAppChannel\<close> returns an error. \<open>connect\<close> on a URL
  that does not parse or has another scheme returns an error, dials nothing and leaves
  the channel as it was; on a \<open>wss\<close> or \<open>ws\<close> URL it dials that URL.
\<close>

theorem bridge_scheme_ws_or_wss:
  "(validateBridgeURL parse u = None \<longleftrightarrow>
      u \<noteq> [] \<and> (\<exists>p. parse u = Some p \<and> (Scheme p = ''wss'' \<or> Scheme p = ''ws'')))
   \<and> (validateBridgeURL parse (BridgeURL cfg) \<noteq> None \<longrightarrow>
        (\<exists>e. NewWhatsAppChannel parse cfg = Inl (InvalidBridgeURL e)))
   \<and> (url_Parse w (url c) = None
        \<or> (\<exists>p. url_Parse w (url c) = Some p \<and> Scheme p \<noteq> ''wss'' \<and> Scheme p \<noteq> ''ws'') \<longrightarrow>
        failure (connect w c) \<noteq> None \<and> dialled (connect w c) = [] \<and> chan (connect w c) = c)
   \<and> ((\<exists>p. url_Parse w (url c) = Some p \<and> (Scheme p = ''wss'' \<or> Scheme p = ''ws'')) \<longrightarrow>
        dialled (connect w c) = [url c])"
proof (intro conjI impI)
  show "validateBridgeURL parse u = None \<longleftrightarrow>
      u \<noteq> [] \<and> (\<exists>p. parse u = Some p \<and> (Scheme p = ''wss'' \<or> Scheme p = ''ws''))"
    by (rule validateBridgeURL_None_iff)
  show "\<exists>e. NewWhatsAppChannel parse cfg = Inl (InvalidBridgeURL e)"
    if "validateBridgeURL parse (BridgeURL cfg) \<noteq> None"
    using that by (auto simp: NewWhatsAppChannel_def)
  show "failure (connect w c) \<noteq> None"
    and "dialled (connect w c) = []" and "chan (connect w c) = c"
    if "url_Parse w (url c) = None
        \<or> (\<exists>p. url_Parse w (url c) = Some p \<and> Scheme p \<noteq> ''wss'' \<and> Scheme p \<noteq> ''ws'')"
    using connect_bad_scheme [OF that] by simp_all
  show "dialled (connect w c) = [url c]"
    if "\<exists>p. url_Parse w (url c) = Some p \<and> (Scheme p = ''wss'' \<or> Scheme p = ''ws'')"
    using that connect_good_scheme by blast
qed

lemma Parse_plain_examples:
  "Parse_plain ''ws://localhost:3001''
     = Some \<lparr>Scheme = ''ws'', query_token = [], without_token = ''ws://localhost:3001''\<rparr>"
  "Parse_plain ''http://localhost:3001''
     = Some \<lparr>Scheme = ''http'', query_token = [], without_token = ''http://localhost:3001''\<rparr>"
  by code_simp+

theorem bridge_scheme_ws_or_wss_witness:
  "validateBridgeURL Parse_plain ''http://localhost:3001'' \<noteq> None
   \<and> (\<exists>e. NewWhatsAppChannel Parse_plain
             \<lparr>Enabled = True, BridgeURL = ''http://localhost:3001'', AllowFrom = [],
              FBPhoneNumberID = [], FBAccessToken = [], FBAPIVersion = []\<rparr>
           = Inl (InvalidBridgeURL e))"
proof -
  note t = bridge_scheme_ws_or_wss
    [of Parse_plain "''http://localhost:3001''"
        "\<lparr>Enabled = True, BridgeURL = ''http://localhost:3001'', AllowFrom = [],
          FBPhoneNumberID = [], FBAccessToken = [], FBAPIVersion = []\<rparr>"]
  have n: "validateBridgeURL Parse_plain ''http://localhost:3001'' \<noteq> None"
    using t by (simp add: Parse_plain_examples)
  with t show ?thesis by simp
qed

text \<open>
  C4 as stated fails: the plaintext URL \<open>ws://localhost:3001\<close> (the default of the
  configuration) is accepted by \<open>validateBridgeURL\<close> and \<open>NewWhatsAppChannel\<close> with no
  opt-in of any kind, and \<open>connect\<close> dials it and succeeds when the bridge answers.
\<close>

theorem plaintext_ws_counterexample:
  "validateBridgeURL Parse_plain ''ws://localhost:3001'' = None
   \<and> (\<exists>c. NewWhatsAppChannel Parse_plain
             \<lparr>Enabled = True, BridgeURL = ''ws://localhost:3001'', AllowFrom = [],
              FBPhoneNumberID = [], FBAccessToken = [], FBAPIVersion = []\<rparr> = Inr c
          \<and> failure (connect \<lparr>url_Parse = Parse_plain, DialContext = (\<lambda>u. Handshake [] []),
                               Since = (\<lambda>t. None)\<rparr> c) = None
          \<and> dialled (connect \<lparr>url_Parse = Parse_plain, DialContext = (\<lambda>u. Handshake [] []),
                               Since = (\<lambda>t. None)\<rparr> c) = [''ws://localhost:3001''])"
proof -
  have v: "validateBridgeURL Parse_plain ''ws://localhost:3001'' = None"
    by (simp add: validateBridgeURL_def Parse_plain_examples)
  have e: "extractAuthToken Parse_plain ''ws://localhost:3001'' = (''ws://localhost:3001'', [])"
    by (simp add: extractAuthToken_def Parse_plain_examples)
  show ?thesis
    by (simp add: v e NewWhatsAppChannel_def connect_def Parse_plain_examples
        validateBridgeResponse_def)
qed

section \<open>Reconnection\<close>


lemma connect_dials_at_most_once: "length (dialled (connect w c)) \<le> Suc 0"
  by (auto simp: connect_def split: option.splits dial_result.splits)


lemma attemptReconnection_dials_at_most_once:
  "length (dialled (attemptReconnection w c)) \<le> 1"
  by (auto simp: attemptReconnection_def Let_def connect_dials_at_most_once
      split: option.splits)

lemma NextDelay_fresh:
  "NextDelay NewConnectionRetry = (1000000000, retry_after 1 2000000000)"
  by (simp add: NewConnectionRetry_eq NextDelay_step)

section \<open>Reconnection and the keepalive loop\<close>





































section \<open>Runes and their bytes\<close>

lemma byte_range: "0 \<le> byte c" "byte c < 256"
proof -
  have "byte c = byte c mod 256"
    by (simp add: byte_def)
  then show "0 \<le> byte c" "byte c < 256"
    by (metis pos_mod_sign zero_less_numeral, metis pos_mod_bound zero_less_numeral)
qed

lemma concat_segments: "concat (map snd (segments s)) = s"
  by (induction s rule: segments.induct) simp_all

text \<open>A rune below 0x80 was read from the one byte with that value; every other rune
  was read from bytes of 0x80 and above.\<close>

definition rune_bytes_ok :: "rune \<times> string \<Rightarrow> bool" where
  "rune_bytes_ok p \<longleftrightarrow>
     (fst p < 0x80 \<and> (\<exists>c. snd p = [c] \<and> byte c = fst p))
     \<or> (0x80 \<le> fst p \<and> list_all (\<lambda>c. 0x80 \<le> byte c) (snd p))"

text \<open>\<open>decodeRune\<close> by the shape of the text, without indexing.\<close>

definition decode_tail3 :: "int \<Rightarrow> int \<Rightarrow> int \<Rightarrow> string \<Rightarrow> rune \<times> nat" where
  "decode_tail3 s0 s1 s2 r2 =
     (case r2 of
        [] \<Rightarrow> (RuneError, 1)
      | c3 # r3 \<Rightarrow>
         if byte c3 < 0x80 \<or> 0xBF < byte c3 then (RuneError, 1)
         else ((s0 mod 8) * 262144 + (s1 mod 64) * 4096 + (s2 mod 64) * 64 + byte c3 mod 64, 4))"

definition decode_tail2 :: "nat \<Rightarrow> int \<Rightarrow> int \<Rightarrow> string \<Rightarrow> rune \<times> nat" where
  "decode_tail2 sz s0 s1 r1 =
     (case r1 of
        [] \<Rightarrow> (RuneError, 1)
      | c2 # r2 \<Rightarrow>
         if byte c2 < 0x80 \<or> 0xBF < byte c2 then (RuneError, 1)
         else if sz = 3 then ((s0 mod 16) * 4096 + (s1 mod 64) * 64 + byte c2 mod 64, 3)
         else decode_tail3 s0 s1 (byte c2) r2)"

definition decode_tail1 :: "nat \<Rightarrow> int \<Rightarrow> string \<Rightarrow> rune \<times> nat" where
  "decode_tail1 sz s0 cs =
     (case cs of
        [] \<Rightarrow> (RuneError, 1)
      | c1 # r1 \<Rightarrow>
         if byte c1 < accept_lo s0 \<or> accept_hi s0 < byte c1 then (RuneError, 1)
         else if sz = 2 then ((s0 mod 32) * 64 + byte c1 mod 64, 2)
         else decode_tail2 sz s0 (byte c1) r1)"

lemma first_size_cases:
  "first_size b = 0 \<or> first_size b = 1 \<or> first_size b = 2 \<or> first_size b = 3
   \<or> first_size b = 4"
  by (simp add: first_size_def)

lemma decodeRune_Cons:
  "decodeRune (c # cs) =
     (if first_size (byte c) = 1 then (byte c, 1)
      else if first_size (byte c) = 0 then (RuneError, 1)
      else decode_tail1 (first_size (byte c)) (byte c) cs)"
proof -
  consider "first_size (byte c) = 0" | "first_size (byte c) = 1" | "first_size (byte c) = 2"
    | "first_size (byte c) = 3" | "first_size (byte c) = 4"
    using first_size_cases [of "byte c"] by auto
  then show ?thesis
  proof cases
    case 1
    then show ?thesis by (simp add: decodeRune_def)
  next
    case 2
    then show ?thesis by (simp add: decodeRune_def)
  next
    case 3
    then show ?thesis
      by (cases cs) (simp_all add: decodeRune_def decode_tail1_def)
  next
    case 4
    show ?thesis
    proof (cases cs)
      case Nil
      with 4 show ?thesis by (simp add: decodeRune_def decode_tail1_def)
    next
      case (Cons c1 r1)
      with 4 show ?thesis
        by (cases r1) (simp_all add: decodeRune_def decode_tail1_def decode_tail2_def)
    qed
  next
    case 5
    show ?thesis
    proof (cases cs)
      case Nil
      with 5 show ?thesis by (simp add: decodeRune_def decode_tail1_def)
    next
      case c1: (Cons c1 r1)
      show ?thesis
      proof (cases r1)
        case Nil
        with 5 c1 show ?thesis
          by (simp add: decodeRune_def decode_tail1_def decode_tail2_def)
      next
        case c2: (Cons c2 r2)
        with 5 c1 show ?thesis
          by (cases r2)
            (simp_all add: decodeRune_def decode_tail1_def decode_tail2_def decode_tail3_def)
      qed
    qed
  qed
qed


lemma first_size_ranges:
  "first_size b = 1 \<longleftrightarrow> b < 0x80"
  "first_size b = 2 \<longleftrightarrow> 0xC2 \<le> b \<and> b < 0xE0"
  "first_size b = 3 \<longleftrightarrow> 0xE0 \<le> b \<and> b < 0xF0"
  "first_size b = 4 \<longleftrightarrow> 0xF0 \<le> b \<and> b < 0xF5"
  by (auto simp: first_size_def)

lemma decode_tail3_result:
  assumes "decode_tail3 s0 s1 s2 r2 = (r, w)"
  shows "(w = 1 \<and> r = RuneError)
         \<or> (w = 4 \<and> (\<exists>c3 r3. r2 = c3 # r3 \<and> 0x80 \<le> byte c3 \<and> byte c3 \<le> 0xBF
                \<and> r = (s0 mod 8) * 262144 + (s1 mod 64) * 4096 + (s2 mod 64) * 64 + byte c3 mod 64))"
  using assms by (cases r2) (auto simp: decode_tail3_def split: if_splits)

lemma decode_tail2_result:
  assumes "decode_tail2 sz s0 s1 r1 = (r, w)"
  shows "(w = 1 \<and> r = RuneError)
         \<or> (w = 3 \<and> sz = 3 \<and> (\<exists>c2 r2. r1 = c2 # r2 \<and> 0x80 \<le> byte c2 \<and> byte c2 \<le> 0xBF
                \<and> r = (s0 mod 16) * 4096 + (s1 mod 64) * 64 + byte c2 mod 64))
         \<or> (w = 4 \<and> sz \<noteq> 3 \<and> (\<exists>c2 c3 r3. r1 = c2 # c3 # r3
                \<and> 0x80 \<le> byte c2 \<and> byte c2 \<le> 0xBF \<and> 0x80 \<le> byte c3 \<and> byte c3 \<le> 0xBF
                \<and> r = (s0 mod 8) * 262144 + (s1 mod 64) * 4096 + (byte c2 mod 64) * 64
                      + byte c3 mod 64))"
proof (cases r1)
  case Nil
  with assms show ?thesis by (simp add: decode_tail2_def)
next
  case (Cons c2 r2)
  show ?thesis
  proof (cases "byte c2 < 0x80 \<or> 0xBF < byte c2")
    case True
    with assms Cons show ?thesis by (auto simp: decode_tail2_def)
  next
    case ok: False
    show ?thesis
    proof (cases "sz = 3")
      case True
      with assms Cons ok show ?thesis by (auto simp: decode_tail2_def)
    next
      case False
      with assms Cons ok have "decode_tail3 s0 s1 (byte c2) r2 = (r, w)"
        by (simp add: decode_tail2_def)
      from decode_tail3_result [OF this] Cons ok False show ?thesis by auto
    qed
  qed
qed

lemma decode_tail1_result:
  assumes "decode_tail1 sz s0 cs = (r, w)"
  shows "(w = 1 \<and> r = RuneError)
         \<or> (w = 2 \<and> sz = 2 \<and> (\<exists>c1 r1. cs = c1 # r1
                \<and> accept_lo s0 \<le> byte c1 \<and> byte c1 \<le> accept_hi s0
                \<and> r = (s0 mod 32) * 64 + byte c1 mod 64))
         \<or> (w = 3 \<and> sz = 3 \<and> (\<exists>c1 c2 r2. cs = c1 # c2 # r2
                \<and> accept_lo s0 \<le> byte c1 \<and> byte c1 \<le> accept_hi s0
                \<and> 0x80 \<le> byte c2 \<and> byte c2 \<le> 0xBF
                \<and> r = (s0 mod 16) * 4096 + (byte c1 mod 64) * 64 + byte c2 mod 64))
         \<or> (w = 4 \<and> sz \<noteq> 2 \<and> sz \<noteq> 3 \<and> (\<exists>c1 c2 c3 r3. cs = c1 # c2 # c3 # r3
                \<and> accept_lo s0 \<le> byte c1 \<and> byte c1 \<le> accept_hi s0
                \<and> 0x80 \<le> byte c2 \<and> byte c2 \<le> 0xBF \<and> 0x80 \<le> byte c3 \<and> byte c3 \<le> 0xBF
                \<and> r = (s0 mod 8) * 262144 + (byte c1 mod 64) * 4096 + (byte c2 mod 64) * 64
                      + byte c3 mod 64))"
proof (cases cs)
  case Nil
  with assms show ?thesis by (simp add: decode_tail1_def)
next
  case (Cons c1 r1)
  show ?thesis
  proof (cases "byte c1 < accept_lo s0 \<or> accept_hi s0 < byte c1")
    case True
    with assms Cons show ?thesis by (auto simp: decode_tail1_def)
  next
    case ok: False
    show ?thesis
    proof (cases "sz = 2")
      case True
      with assms Cons ok show ?thesis by (auto simp: decode_tail1_def)
    next
      case False
      with assms Cons ok have "decode_tail2 sz s0 (byte c1) r1 = (r, w)"
        by (simp add: decode_tail1_def)
      from decode_tail2_result [OF this] Cons ok False show ?thesis by auto
    qed
  qed
qed

lemma accept_lo_ge: "0x80 \<le> accept_lo b"
  by (simp add: accept_lo_def)

lemma accept_hi_le: "accept_hi b \<le> 0xBF"
  by (simp add: accept_hi_def)

text \<open>What \<open>decodeRune\<close> returns on a text that is not empty: an ASCII byte, a byte
  that starts nothing, or a well-formed sequence of two to four bytes.\<close>

lemma decodeRune_result:
  assumes "decodeRune (c # cs) = (r, w)"
  shows "(w = 1 \<and> byte c < 0x80 \<and> r = byte c)
         \<or> (w = 1 \<and> 0x80 \<le> byte c \<and> r = RuneError)
         \<or> (w = 2 \<and> 0x80 \<le> byte c \<and> 0x80 \<le> r
              \<and> (\<exists>c1 r1. cs = c1 # r1 \<and> 0x80 \<le> byte c1))
         \<or> (w = 3 \<and> 0x80 \<le> byte c \<and> 0x80 \<le> r
              \<and> (\<exists>c1 c2 r2. cs = c1 # c2 # r2 \<and> 0x80 \<le> byte c1 \<and> 0x80 \<le> byte c2))
         \<or> (w = 4 \<and> 0x80 \<le> byte c \<and> 0x80 \<le> r
              \<and> (\<exists>c1 c2 c3 r3. cs = c1 # c2 # c3 # r3
                    \<and> 0x80 \<le> byte c1 \<and> 0x80 \<le> byte c2 \<and> 0x80 \<le> byte c3))"
proof -
  consider "first_size (byte c) = 0" | "first_size (byte c) = 1" | "first_size (byte c) = 2"
    | "first_size (byte c) = 3" | "first_size (byte c) = 4"
    using first_size_cases [of "byte c"] by auto
  then show ?thesis
  proof cases
    case 1
    then have "0x80 \<le> byte c" by (simp add: first_size_def split: if_splits)
    with 1 assms show ?thesis by (simp add: decodeRune_Cons)
  next
    case 2
    then have "byte c < 0x80" by (simp add: first_size_def split: if_splits)
    with 2 assms show ?thesis by (simp add: decodeRune_Cons)
  next
    case 3
    then have b: "0xC2 \<le> byte c" "byte c < 0xE0" by (simp_all add: first_size_ranges)
    from 3 assms have t: "decode_tail1 2 (byte c) cs = (r, w)" by (simp add: decodeRune_Cons)
    from decode_tail1_result [OF t] consider "w = 1" "r = RuneError"
      | c1 r1 where "w = 2" "cs = c1 # r1" "accept_lo (byte c) \<le> byte c1"
          "r = (byte c mod 32) * 64 + byte c1 mod 64"
      by auto
    then show ?thesis
    proof cases
      case 1
      with b show ?thesis by simp
    next
      case 2
      have "2 \<le> byte c mod 32" using b by presburger
      moreover have "0 \<le> byte c1 mod 64" by simp
      ultimately have "0x80 \<le> r" using 2(4) by linarith
      moreover have "0x80 \<le> byte c1" using 2(3) accept_lo_ge [of "byte c"] by linarith
      ultimately show ?thesis using 2 b by simp
    qed
  next
    case 4
    then have b: "0xE0 \<le> byte c" "byte c < 0xF0" by (simp_all add: first_size_ranges)
    from 4 assms have t: "decode_tail1 3 (byte c) cs = (r, w)" by (simp add: decodeRune_Cons)
    from decode_tail1_result [OF t] consider "w = 1" "r = RuneError"
      | c1 c2 r2 where "w = 3" "cs = c1 # c2 # r2" "accept_lo (byte c) \<le> byte c1"
          "byte c1 \<le> accept_hi (byte c)" "0x80 \<le> byte c2"
          "r = (byte c mod 16) * 4096 + (byte c1 mod 64) * 64 + byte c2 mod 64"
      by auto
    then show ?thesis
    proof cases
      case 1
      with b show ?thesis by simp
    next
      case 2
      have c1: "0x80 \<le> byte c1" using 2(3) accept_lo_ge [of "byte c"] by linarith
      have c1': "byte c1 \<le> 0xBF" using 2(4) accept_hi_le [of "byte c"] by linarith
      have "0 \<le> byte c2 mod 64" by simp
      moreover have "128 \<le> (byte c mod 16) * 4096 + (byte c1 mod 64) * 64"
      proof (cases "byte c = 0xE0")
        case True
        then have "0xA0 \<le> byte c1" using 2(3) by (simp add: accept_lo_def)
        with c1' have "32 \<le> byte c1 mod 64" by presburger
        moreover have "0 \<le> byte c mod 16" by simp
        ultimately show ?thesis by linarith
      next
        case False
        with b have "1 \<le> byte c mod 16" by presburger
        moreover have "0 \<le> byte c1 mod 64" by simp
        ultimately show ?thesis by linarith
      qed
      ultimately have "0x80 \<le> r" using 2(6) by linarith
      with 2 b c1 show ?thesis by simp
    qed
  next
    case 5
    then have b: "0xF0 \<le> byte c" "byte c < 0xF5" by (simp_all add: first_size_ranges)
    from 5 assms have t: "decode_tail1 4 (byte c) cs = (r, w)" by (simp add: decodeRune_Cons)
    from decode_tail1_result [OF t] consider "w = 1" "r = RuneError"
      | c1 c2 c3 r3 where "w = 4" "cs = c1 # c2 # c3 # r3" "accept_lo (byte c) \<le> byte c1"
          "byte c1 \<le> accept_hi (byte c)" "0x80 \<le> byte c2" "0x80 \<le> byte c3"
          "r = (byte c mod 8) * 262144 + (byte c1 mod 64) * 4096 + (byte c2 mod 64) * 64
                + byte c3 mod 64"
      by auto
    then show ?thesis
    proof cases
      case 1
      with b show ?thesis by simp
    next
      case 2
      have c1: "0x80 \<le> byte c1" using 2(3) accept_lo_ge [of "byte c"] by linarith
      have c1': "byte c1 \<le> 0xBF" using 2(4) accept_hi_le [of "byte c"] by linarith
      have "0 \<le> byte c3 mod 64" "0 \<le> byte c2 mod 64" by simp_all
      moreover have "128 \<le> (byte c mod 8) * 262144 + (byte c1 mod 64) * 4096"
      proof (cases "byte c = 0xF0")
        case True
        then have "0x90 \<le> byte c1" using 2(3) by (simp add: accept_lo_def)
        with c1' have "16 \<le> byte c1 mod 64" by presburger
        moreover have "0 \<le> byte c mod 8" by simp
        ultimately show ?thesis by linarith
      next
        case False
        with b have "1 \<le> byte c mod 8" by presburger
        moreover have "0 \<le> byte c1 mod 64" by simp
        ultimately show ?thesis by linarith
      qed
      ultimately have "0x80 \<le> r" using 2(7) by linarith
      with 2 b c1 show ?thesis by simp
    qed
  qed
qed


lemma decodeRune_width_bounds:
  "1 \<le> snd (decodeRune (c # cs))" "snd (decodeRune (c # cs)) \<le> Suc (length cs)"
  using decodeRune_result [of c cs "fst (decodeRune (c # cs))" "snd (decodeRune (c # cs))"]
  by auto

lemma segments_bytes_ok: "p \<in> set (segments s) \<Longrightarrow> rune_bytes_ok p"
proof (induction s arbitrary: p rule: segments.induct)
  case 1
  then show ?case by simp
next
  case (2 c cs)
  let ?r = "fst (decodeRune (c # cs))" and ?w = "snd (decodeRune (c # cs))"
  have "rune_bytes_ok (?r, c # take (?w - 1) cs)"
    using decodeRune_result [of c cs ?r ?w]
    by (auto simp: rune_bytes_ok_def RuneError_def)
  with 2 show ?case by (cases p) auto
qed

text \<open>Cutting the text after the bytes that were read does not change what is read.\<close>

lemma decode_tail3_prefix:
  assumes "decode_tail3 s0 s1 s2 (x @ y) = (r, w)" and "w \<le> 3 + length x"
  shows "decode_tail3 s0 s1 s2 x = (r, w)"
proof (cases x)
  case Nil
  with assms decode_tail3_result [OF assms(1)] show ?thesis
    by (auto simp: decode_tail3_def)
next
  case (Cons a x')
  with assms show ?thesis by (simp add: decode_tail3_def)
qed

lemma decode_tail2_prefix:
  assumes "decode_tail2 sz s0 s1 (x @ y) = (r, w)" and "w \<le> 2 + length x"
  shows "decode_tail2 sz s0 s1 x = (r, w)"
proof (cases x)
  case Nil
  with assms decode_tail2_result [OF assms(1)] show ?thesis
    by (auto simp: decode_tail2_def)
next
  case (Cons a x')
  show ?thesis
  proof (cases "(byte a < 0x80 \<or> 0xBF < byte a) \<or> sz = 3")
    case True
    with assms Cons show ?thesis by (auto simp: decode_tail2_def)
  next
    case False
    with assms Cons have "decode_tail3 s0 s1 (byte a) (x' @ y) = (r, w)" "w \<le> 3 + length x'"
      by (simp_all add: decode_tail2_def)
    from decode_tail3_prefix [OF this] False Cons show ?thesis
      by (simp add: decode_tail2_def)
  qed
qed

lemma decode_tail1_prefix:
  assumes "decode_tail1 sz s0 (x @ y) = (r, w)" and "w \<le> 1 + length x"
  shows "decode_tail1 sz s0 x = (r, w)"
proof (cases x)
  case Nil
  with assms decode_tail1_result [OF assms(1)] show ?thesis
    by (auto simp: decode_tail1_def)
next
  case (Cons a x')
  show ?thesis
  proof (cases "(byte a < accept_lo s0 \<or> accept_hi s0 < byte a) \<or> sz = 2")
    case True
    with assms Cons show ?thesis by (auto simp: decode_tail1_def)
  next
    case False
    with assms Cons have "decode_tail2 sz s0 (byte a) (x' @ y) = (r, w)" "w \<le> 2 + length x'"
      by (simp_all add: decode_tail1_def)
    from decode_tail2_prefix [OF this] False Cons show ?thesis
      by (simp add: decode_tail1_def)
  qed
qed

lemma decodeRune_prefix:
  assumes "snd (decodeRune (c # x @ y)) \<le> Suc (length x)"
  shows "decodeRune (c # x) = decodeRune (c # x @ y)"
proof (cases "first_size (byte c) = 1 \<or> first_size (byte c) = 0")
  case True
  then show ?thesis by (auto simp: decodeRune_Cons)
next
  case False
  obtain r w where rw: "decodeRune (c # x @ y) = (r, w)"
    by (cases "decodeRune (c # x @ y)")
  with False have "decode_tail1 (first_size (byte c)) (byte c) (x @ y) = (r, w)"
    by (simp add: decodeRune_Cons)
  moreover from assms rw have "w \<le> 1 + length x" by simp
  ultimately have "decode_tail1 (first_size (byte c)) (byte c) x = (r, w)"
    by (rule decode_tail1_prefix)
  with False rw show ?thesis by (simp add: decodeRune_Cons)
qed

text \<open>The runes of a text that is made of the bytes of consecutive runes of another
  text are those runes.\<close>

lemma segments_suffix: "segments s = A @ R \<Longrightarrow> segments (concat (map snd R)) = R"
proof (induction A arbitrary: s)
  case Nil
  then show ?case using concat_segments [of s] by simp
next
  case (Cons a A)
  then obtain c cs where s: "s = c # cs"
    by (cases s) auto
  with Cons.prems have "segments (drop (snd (decodeRune (c # cs)) - 1) cs) = A @ R"
    by simp
  then show ?case by (rule Cons.IH)
qed

lemma segments_prefix: "segments s = T @ B \<Longrightarrow> segments (concat (map snd T)) = T"
proof (induction T arbitrary: s)
  case Nil
  then show ?case by simp
next
  case (Cons t T)
  then obtain c cs where s: "s = c # cs"
    by (cases s) auto
  define w where "w = snd (decodeRune (c # cs))"
  define pre where "pre = take (w - 1) cs"
  define x where "x = concat (map snd T)"
  define y where "y = concat (map snd B)"
  from Cons.prems s have t: "t = (fst (decodeRune (c # cs)), c # pre)"
    and rest: "segments (drop (w - 1) cs) = T @ B"
    by (simp_all add: w_def pre_def)
  have ih: "segments x = T"
    unfolding x_def using rest by (rule Cons.IH)
  have "drop (w - 1) cs = x @ y"
    using concat_segments [of "drop (w - 1) cs"] rest by (simp add: x_def y_def)
  then have cs: "(pre @ x) @ y = cs"
    using append_take_drop_id [of "w - 1" cs] by (simp add: pre_def)
  have w: "w \<le> Suc (length cs)" "1 \<le> w"
    using decodeRune_width_bounds [of c cs] by (simp_all add: w_def)
  have len: "length pre = w - 1"
    using w by (simp add: pre_def)
  have "w \<le> Suc (length (pre @ x))"
    using len w by simp
  then have "snd (decodeRune (c # (pre @ x) @ y)) \<le> Suc (length (pre @ x))"
    by (simp only: cs w_def)
  then have "decodeRune (c # pre @ x) = decodeRune (c # (pre @ x) @ y)"
    by (rule decodeRune_prefix)
  then have d: "decodeRune (c # pre @ x) = decodeRune (c # cs)"
    by (simp only: cs)
  have "segments (concat (map snd (t # T))) = segments (c # pre @ x)"
    using t by (simp add: x_def)
  also have "\<dots> = (fst (decodeRune (c # cs)), c # take (w - 1) (pre @ x))
                    # segments (drop (w - 1) (pre @ x))"
    by (simp add: d w_def)
  also have "\<dots> = t # segments x"
    using t len by simp
  finally show ?case using ih by simp
qed

lemma segments_infix:
  assumes "segments s = A @ T @ B"
  shows "segments (concat (map snd T)) = T"
proof -
  have "segments (concat (map snd (T @ B))) = T @ B"
    using assms by (rule segments_suffix)
  then show ?thesis by (rule segments_prefix)
qed


section \<open>Sanitizing\<close>

lemma trim_segments_infix: "\<exists>A B. ss = A @ trim_segments ss @ B"
proof -
  define P :: "rune \<times> string \<Rightarrow> bool" where "P = (\<lambda>p. IsSpace (fst p))"
  define D where "D = dropWhile P ss"
  have "ss = takeWhile P ss @ D"
    by (simp add: D_def)
  moreover have "rev D = takeWhile P (rev D) @ dropWhile P (rev D)"
    by simp
  then have "D = rev (dropWhile P (rev D)) @ rev (takeWhile P (rev D))"
    by (metis rev_append rev_rev_ident)
  ultimately have "ss = takeWhile P ss @ trim_segments ss @ rev (takeWhile P (rev D))"
    by (simp add: trim_segments_def D_def P_def)
  then show ?thesis by blast
qed

lemma trim_segments_ends:
  assumes "trim_segments ss \<noteq> []"
  shows "\<not> IsSpace (fst (hd (trim_segments ss)))" "\<not> IsSpace (fst (last (trim_segments ss)))"
proof -
  define P :: "rune \<times> string \<Rightarrow> bool" where "P = (\<lambda>p. IsSpace (fst p))"
  define D where "D = dropWhile P ss"
  define E where "E = dropWhile P (rev D)"
  have T: "trim_segments ss = rev E"
    by (simp add: trim_segments_def D_def E_def P_def)
  with assms have E: "E \<noteq> []" by simp
  then have "\<not> P (hd E)"
    unfolding E_def by (rule hd_dropWhile)
  then show "\<not> IsSpace (fst (last (trim_segments ss)))"
    using E T by (simp add: last_rev P_def)
  have "rev D = takeWhile P (rev D) @ E"
    by (simp add: E_def)
  then have D: "D = rev E @ rev (takeWhile P (rev D))"
    by (metis rev_append rev_rev_ident)
  with E have "D \<noteq> []" by auto
  then have "\<not> P (hd D)"
    unfolding D_def by (rule hd_dropWhile)
  moreover have "hd D = hd (rev E)"
    using D E by (metis hd_append2 rev_is_Nil_conv)
  ultimately show "\<not> IsSpace (fst (hd (trim_segments ss)))"
    using T by (simp add: P_def)
qed

lemma trim_segments_idem: "trim_segments (trim_segments ss) = trim_segments ss"
proof (cases "trim_segments ss = []")
  case True
  then show ?thesis by (simp add: trim_segments_def [of "[]"])
next
  case False
  define T where "T = trim_segments ss"
  from False trim_segments_ends [of ss]
  have h: "\<not> IsSpace (fst (hd T))" and l: "\<not> IsSpace (fst (last T))" and ne: "T \<noteq> []"
    by (simp_all add: T_def)
  have front: "dropWhile (\<lambda>p. IsSpace (fst p)) T = T"
    using h ne by (cases T) auto
  have rear: "dropWhile (\<lambda>p. IsSpace (fst p)) (rev T) = rev T"
  proof (cases "rev T")
    case Nil
    then show ?thesis by simp
  next
    case (Cons a R)
    then have "last T = a"
      using hd_rev [of T] by simp
    with l Cons show ?thesis by simp
  qed
  have "trim_segments T = T"
    unfolding trim_segments_def front rear by simp
  then show ?thesis by (simp only: T_def)
qed

lemma segments_TrimSpace: "segments (TrimSpace s) = trim_segments (segments s)"
proof -
  obtain A B where "segments s = A @ trim_segments (segments s) @ B"
    using trim_segments_infix by blast
  then show ?thesis
    unfolding TrimSpace_def by (rule segments_infix)
qed

lemma TrimSpace_idem: "TrimSpace (TrimSpace s) = TrimSpace s"
  by (simp add: TrimSpace_def [of "TrimSpace s"] segments_TrimSpace trim_segments_idem)
    (simp add: TrimSpace_def)

lemma set_TrimSpace: "set (TrimSpace s) \<subseteq> set s"
proof -
  obtain A B where e: "segments s = A @ trim_segments (segments s) @ B"
    using trim_segments_infix by blast
  have "set (concat (map snd (trim_segments (segments s))))
          \<subseteq> set (concat (map snd (A @ trim_segments (segments s) @ B)))"
    by auto
  then show ?thesis
    unfolding TrimSpace_def using e concat_segments [of s] by simp
qed

lemma byte_utf8_RuneError: "c \<in> set utf8_RuneError \<Longrightarrow> 0x80 \<le> byte c"
  by (auto simp: utf8_RuneError_def byte_def)

text \<open>The bytes that \<open>strings.Map\<close> leaves: no control character other than tab, line
  feed and carriage return.\<close>

definition clean_byte :: "char \<Rightarrow> bool" where
  "clean_byte c \<longleftrightarrow> 0x20 \<le> byte c \<or> byte c = 0x09 \<or> byte c = 0x0A \<or> byte c = 0x0D"

lemma Map_drop_clean:
  assumes "c \<in> set (Map_drop dropped_control s)"
  shows "clean_byte c"
proof -
  from assms obtain r bs where p: "(r, bs) \<in> set (segments s)" "\<not> dropped_control r"
    and c: "c \<in> set (if r = RuneError then utf8_RuneError else bs)"
    by (auto simp: Map_drop_def split: if_splits)
  show ?thesis
  proof (cases "r = RuneError")
    case True
    with c byte_utf8_RuneError [of c] show ?thesis by (simp add: clean_byte_def)
  next
    case False
    with c have cb: "c \<in> set bs" by simp
    from segments_bytes_ok [OF p(1)] cb
    have "(r < 0x80 \<and> byte c = r) \<or> 0x80 \<le> byte c"
      by (auto simp: rune_bytes_ok_def list_all_iff)
    with p(2) byte_range [of c] show ?thesis
      by (auto simp: clean_byte_def dropped_control_def)
  qed
qed

lemma cleaned_clean: "list_all clean_byte (cleaned s)"
proof -
  have "set (cleaned s) \<subseteq> set (Map_drop dropped_control s)"
    unfolding cleaned_def
    using set_TrimSpace [of "ReplaceAll_NUL (Map_drop dropped_control s)"]
    by (auto simp: ReplaceAll_NUL_def)
  then show ?thesis
    using Map_drop_clean by (auto simp: list_all_iff)
qed

lemma cleaned_trimmed: "TrimSpace (cleaned s) = cleaned s"
  by (simp add: cleaned_def TrimSpace_idem)

lemma cleaned_ends:
  assumes "cleaned s \<noteq> []"
  shows "\<not> IsSpace (fst (hd (segments (cleaned s))))"
    and "\<not> IsSpace (fst (last (segments (cleaned s))))"
proof -
  define u where "u = ReplaceAll_NUL (Map_drop dropped_control s)"
  have c: "cleaned s = TrimSpace u"
    by (simp add: cleaned_def u_def)
  have "trim_segments (segments u) \<noteq> []"
    using assms c by (auto simp: TrimSpace_def)
  from trim_segments_ends [OF this] show "\<not> IsSpace (fst (hd (segments (cleaned s))))"
    and "\<not> IsSpace (fst (last (segments (cleaned s))))"
    by (simp_all add: c segments_TrimSpace)
qed



section \<open>Inbound validation\<close>

lemma sanitizeContent_Inr:
  "sanitizeContent s = Inr t \<longleftrightarrow> length s \<le> MaxContentLength \<and> t = cleaned s"
  by (auto simp: sanitizeContent_def)

lemma sanitizeContent_Inl:
  "sanitizeContent s = Inl e \<longleftrightarrow> MaxContentLength < length s \<and> e = ContentTooLong"
  by (auto simp: sanitizeContent_def)

lemma validateMedia_not_content_error:
  "validateMedia ps \<noteq> Some (ContentValidationFailed e)"
  by (induction ps) (auto split: option.splits)

lemma validatePhoneNumber_None:
  "validatePhoneNumber p = None \<longleftrightarrow> p \<noteq> [] \<and> length p \<le> 50"
  by (cases p) (auto simp: validatePhoneNumber_def)

lemma validateIncomingMessage_too_long:
  "validateIncomingMessage v msg = Inl (ContentValidationFailed ContentTooLong) \<longleftrightarrow>
     in_From msg \<noteq> [] \<and> length (in_From msg) \<le> 50 \<and> MaxContentLength < length (in_Content msg)"
proof (cases "in_From msg \<noteq> [] \<and> length (in_From msg) \<le> 50")
  case False
  then have "in_From msg = [] \<or> validatePhoneNumber (in_From msg) \<noteq> None"
    by (auto simp: validatePhoneNumber_None)
  then show ?thesis
    using False by (auto simp: validateIncomingMessage_def split: option.splits)
next
  case True
  then have p: "in_From msg \<noteq> []" "validatePhoneNumber (in_From msg) = None"
    by (simp_all add: validatePhoneNumber_None)
  show ?thesis
  proof (cases "MaxContentLength < length (in_Content msg)")
    case long: True
    then have "in_Content msg \<noteq> []" by auto
    moreover from long have "sanitizeContent (in_Content msg) = Inl ContentTooLong"
      by (simp add: sanitizeContent_Inl)
    ultimately show ?thesis
      using True p long by (simp add: validateIncomingMessage_def)
  next
    case short: False
    then have s: "sanitizeContent (in_Content msg) = Inr (cleaned (in_Content msg))"
      by (simp add: sanitizeContent_def)
    have "validateIncomingMessage v msg \<noteq> Inl (ContentValidationFailed ContentTooLong)"
      using p s validateMedia_not_content_error [of "in_Media msg" ContentTooLong]
      by (auto simp: validateIncomingMessage_def split: option.splits sum.splits if_splits)
    with short show ?thesis by simp
  qed
qed

lemma validateIncomingMessage_Inr:
  assumes "validateIncomingMessage v msg = Inr msg'"
  shows "msg' = msg\<lparr>in_Content := cleaned (in_Content msg)\<rparr>"
    and "length (in_Content msg) \<le> MaxContentLength"
proof -
  from assms have s: "(if in_Content msg \<noteq> [] then sanitizeContent (in_Content msg)
                       else Inr (in_Content msg)) = Inr (in_Content msg')"
    and m: "msg' = msg\<lparr>in_Content := in_Content msg'\<rparr>"
    by (auto simp: validateIncomingMessage_def split: option.splits sum.splits if_splits)
  from s have "in_Content msg' = cleaned (in_Content msg)
               \<and> length (in_Content msg) \<le> MaxContentLength"
    by (cases "in_Content msg = []")
      (auto simp: sanitizeContent_Inr cleaned_Nil MaxContentLength_def)
  with m show "msg' = msg\<lparr>in_Content := cleaned (in_Content msg)\<rparr>"
    and "length (in_Content msg) \<le> MaxContentLength"
    by simp_all
qed

lemma message_type_distinct:
  "MessageTypeStatus \<noteq> MessageTypeMessage" "MessageTypeError \<noteq> MessageTypeMessage"
  "MessageTypePing \<noteq> MessageTypeMessage" "MessageTypePong \<noteq> MessageTypeMessage"
  by (simp_all add: MessageTypeStatus_def MessageTypeMessage_def MessageTypeError_def
      MessageTypePing_def MessageTypePong_def)

lemma other_validators_keep_message:
  "validateIncomingStatus v msg = Inr msg' \<Longrightarrow> msg' = msg"
  "validateIncomingError v msg = Inr msg' \<Longrightarrow> msg' = msg"
  "validateIncomingPingPong v msg = Inr msg' \<Longrightarrow> msg' = msg"
  by (auto simp: validateIncomingStatus_def validateIncomingError_def
      validateIncomingPingPong_def split: if_splits)

lemma other_validators_not_too_long:
  "validateIncomingStatus v msg \<noteq> Inl (ContentValidationFailed e)"
  "validateIncomingError v msg \<noteq> Inl (ContentValidationFailed e)"
  "validateIncomingPingPong v msg \<noteq> Inl (ContentValidationFailed e)"
  by (auto simp: validateIncomingStatus_def validateIncomingError_def
      validateIncomingPingPong_def split: if_splits)

lemma ValidateIncoming_message:
  assumes "ValidateIncoming unmarshal v data = Inr msg'" and "in_Type msg' = MessageTypeMessage"
  shows "\<exists>msg. unmarshal data = Some msg \<and> in_Type msg = MessageTypeMessage
           \<and> validateIncomingMessage v msg = Inr msg'"
proof -
  from assms(1) obtain msg where u: "unmarshal data = Some msg"
    by (auto simp: ValidateIncoming_def split: option.splits)
  show ?thesis
  proof (cases "in_Type msg = MessageTypeMessage")
    case True
    with assms(1) u show ?thesis
      by (auto simp: ValidateIncoming_def split: option.splits)
  next
    case False
    with assms(1) u have "msg' = msg"
      by (auto simp: ValidateIncoming_def split: option.splits if_splits
          dest: other_validators_keep_message)
    with False assms(2) show ?thesis by simp
  qed
qed

lemma ValidateIncoming_too_long:
  "ValidateIncoming unmarshal v data = Inl (ContentValidationFailed ContentTooLong) \<longleftrightarrow>
     (\<exists>msg. unmarshal data = Some msg \<and> in_Type msg = MessageTypeMessage
        \<and> in_From msg \<noteq> [] \<and> length (in_From msg) \<le> 50
        \<and> MaxContentLength < length (in_Content msg))"
proof (cases "unmarshal data")
  case None
  then show ?thesis by (simp add: ValidateIncoming_def)
next
  case (Some msg)
  show ?thesis
  proof (cases "in_Type msg = MessageTypeMessage")
    case True
    then have "validateMessageType (in_Type msg) = None"
      by (simp add: validateMessageType_def)
    with Some True show ?thesis
      by (simp add: ValidateIncoming_def validateIncomingMessage_too_long)
  next
    case False
    with Some show ?thesis
      using other_validators_not_too_long [of v msg ContentTooLong]
      by (auto simp: ValidateIncoming_def validateMessageType_def split: option.splits)
  qed
qed

text \<open>
  C7. The content of a message that \<open>ValidateIncoming\<close> accepts as a frame of type
  \<open>message\<close> has no byte below 0x20 other than tab, line feed and carriage return; it is
  left unchanged by \<open>strings.TrimSpace\<close>, and when it is not empty neither its first nor
  its last rune is white space.
\<close>

theorem accepted_content_is_sanitized:
  assumes "ValidateIncoming unmarshal v data = Inr msg'" and "in_Type msg' = ''message''"
  shows "list_all (\<lambda>c. 0x20 \<le> byte c \<or> byte c = 0x09 \<or> byte c = 0x0A \<or> byte c = 0x0D)
           (in_Content msg')
         \<and> TrimSpace (in_Content msg') = in_Content msg'
         \<and> (in_Content msg' = []
             \<or> (\<not> IsSpace (fst (hd (segments (in_Content msg'))))
                 \<and> \<not> IsSpace (fst (last (segments (in_Content msg'))))))"
proof -
  from assms obtain msg where "validateIncomingMessage v msg = Inr msg'"
    using ValidateIncoming_message [of unmarshal v data msg']
    by (auto simp: MessageTypeMessage_def)
  then have c: "in_Content msg' = cleaned (in_Content msg)"
    using validateIncomingMessage_Inr(1) [of v msg msg'] by simp
  have "list_all clean_byte (in_Content msg')"
    unfolding c by (rule cleaned_clean)
  then have "list_all (\<lambda>c. 0x20 \<le> byte c \<or> byte c = 0x09 \<or> byte c = 0x0A \<or> byte c = 0x0D)
           (in_Content msg')"
    by (simp add: clean_byte_def [abs_def])
  moreover have "TrimSpace (in_Content msg') = in_Content msg'"
    unfolding c by (rule cleaned_trimmed)
  moreover have "in_Content msg' = []
             \<or> (\<not> IsSpace (fst (hd (segments (in_Content msg'))))
                 \<and> \<not> IsSpace (fst (last (segments (in_Content msg')))))"
    unfolding c using cleaned_ends [of "in_Content msg"] by blast
  ultimately show ?thesis by simp
qed

text \<open>
  C3 (as amended). \<open>ValidateIncoming\<close> fails with the content-too-long error exactly on a
  frame of type \<open>message\<close> with a sender of 1 to 50 bytes whose content, as received and
  before any sanitizing, is longer than 4096 bytes.
\<close>

theorem content_too_long_iff_raw_length:
  "(validateIncomingMessage v msg = Inl (ContentValidationFailed ContentTooLong) \<longleftrightarrow>
      in_From msg \<noteq> [] \<and> length (in_From msg) \<le> 50 \<and> 4096 < length (in_Content msg))
   \<and> (ValidateIncoming unmarshal v data = Inl (ContentValidationFailed ContentTooLong) \<longleftrightarrow>
        (\<exists>m. unmarshal data = Some m \<and> in_Type m = ''message''
           \<and> in_From m \<noteq> [] \<and> length (in_From m) \<le> 50 \<and> 4096 < length (in_Content m)))"
  using validateIncomingMessage_too_long [of v msg] ValidateIncoming_too_long [of unmarshal v data]
  by (simp add: MaxContentLength_def MessageTypeMessage_def)


lemma ValidateIncoming_example:
  "ValidateIncoming Unmarshal_flat (NewMessageValidator [])
     (marshalIncoming
        \<lparr>in_Type = ''message'', in_ID = ''msg123'', in_From = ''test-user'', in_Chat = [],
         in_Content = '' Hello'' @ [CHR 0x00] @ ''World'' @ [CHR 0x01] @ ''Test'' @ [CHR 0x0A],
         in_Media = [''photo.PNG''], in_FromName = [], in_Status = [], in_Error = [],
         in_Timestamp = 1700000000, in_Signature = []\<rparr>)
   = Inr \<lparr>in_Type = ''message'', in_ID = ''msg123'', in_From = ''test-user'', in_Chat = [],
          in_Content = ''HelloWorldTest'', in_Media = [''photo.PNG''], in_FromName = [],
          in_Status = [], in_Error = [], in_Timestamp = 1700000000, in_Signature = []\<rparr>"
  by code_simp

theorem accepted_content_is_sanitized_witness:
  "ValidateIncoming Unmarshal_flat (NewMessageValidator [])
     (marshalIncoming
        \<lparr>in_Type = ''message'', in_ID = ''msg123'', in_From = ''test-user'', in_Chat = [],
         in_Content = '' Hello'' @ [CHR 0x00] @ ''World'' @ [CHR 0x01] @ ''Test'' @ [CHR 0x0A],
         in_Media = [''photo.PNG''], in_FromName = [], in_Status = [], in_Error = [],
         in_Timestamp = 1700000000, in_Signature = []\<rparr>)
   = Inr \<lparr>in_Type = ''message'', in_ID = ''msg123'', in_From = ''test-user'', in_Chat = [],
          in_Content = ''HelloWorldTest'', in_Media = [''photo.PNG''], in_FromName = [],
          in_Status = [], in_Error = [], in_Timestamp = 1700000000, in_Signature = []\<rparr>
   \<and> list_all (\<lambda>c. 0x20 \<le> byte c \<or> byte c = 0x09 \<or> byte c = 0x0A \<or> byte c = 0x0D)
         ''HelloWorldTest''
   \<and> TrimSpace ''HelloWorldTest'' = ''HelloWorldTest''
   \<and> \<not> IsSpace (fst (hd (segments ''HelloWorldTest'')))
   \<and> \<not> IsSpace (fst (last (segments ''HelloWorldTest'')))"
  using accepted_content_is_sanitized [OF ValidateIncoming_example] ValidateIncoming_example
  by simp

section \<open>A long content that cleans to 4096 bytes\<close>

lemma decodeRune_ascii: "byte c < 0x80 \<Longrightarrow> decodeRune (c # cs) = (byte c, 1)"
  by (simp add: decodeRune_def Let_def first_size_def)

lemma segments_ascii:
  "list_all (\<lambda>c. byte c < 0x80) s \<Longrightarrow> segments s = map (\<lambda>c. (byte c, [c])) s"
  by (induction s) (simp_all add: decodeRune_ascii)

lemma Map_drop_printable:
  assumes "list_all (\<lambda>c. 0x20 \<le> byte c \<and> byte c < 0x80) s"
  shows "Map_drop dropped_control s = s"
proof -
  have a: "list_all (\<lambda>c. byte c < 0x80) s"
    using assms by (simp add: list_all_iff)
  have "concat (map (\<lambda>c. if dropped_control (byte c) then []
                          else if byte c = RuneError then utf8_RuneError else [c]) s) = s"
    using assms by (induction s) (auto simp: dropped_control_def RuneError_def)
  then show ?thesis
    by (simp add: Map_drop_def segments_ascii [OF a] comp_def)
qed

lemma ReplaceAll_NUL_printable:
  "list_all (\<lambda>c. 0x20 \<le> byte c \<and> byte c < 0x80) s \<Longrightarrow> ReplaceAll_NUL s = s"
  by (induction s) (auto simp: ReplaceAll_NUL_def)

lemma TrimSpace_ascii:
  assumes "list_all (\<lambda>c. byte c < 0x80) s"
  shows "TrimSpace s
         = rev (dropWhile (\<lambda>c. IsSpace (byte c)) (rev (dropWhile (\<lambda>c. IsSpace (byte c)) s)))"
proof -
  have "trim_segments (map (\<lambda>c. (byte c, [c])) s)
        = map (\<lambda>c. (byte c, [c]))
            (rev (dropWhile (\<lambda>c. IsSpace (byte c)) (rev (dropWhile (\<lambda>c. IsSpace (byte c)) s))))"
    by (simp add: trim_segments_def dropWhile_map rev_map comp_def)
  then show ?thesis
    by (simp add: TrimSpace_def segments_ascii [OF assms] comp_def)
qed

lemma cleaned_text_then_space:
  assumes "0 < n"
  shows "cleaned (replicate n (CHR ''a'') @ '' '') = replicate n (CHR ''a'')"
proof -
  let ?s = "replicate n (CHR ''a'') @ '' ''"
  have b: "byte (CHR ''a'') = 97" "byte (CHR '' '') = 32"
    by (simp_all add: byte_def)
  have p: "list_all (\<lambda>c. 0x20 \<le> byte c \<and> byte c < 0x80) ?s"
    by (simp add: list_all_iff b)
  have a: "list_all (\<lambda>c. byte c < 0x80) ?s"
    by (simp add: list_all_iff b)
  obtain m where n: "n = Suc m"
    using assms by (cases n) auto
  have front: "dropWhile (\<lambda>c. IsSpace (byte c)) ?s = ?s"
    by (simp add: n b IsSpace_def)
  have "rev ?s = CHR '' '' # replicate n (CHR ''a'')"
    by simp
  then have rear: "dropWhile (\<lambda>c. IsSpace (byte c)) (rev ?s) = replicate n (CHR ''a'')"
    by (simp add: n b IsSpace_def)
  have "cleaned ?s = TrimSpace ?s"
    by (simp only: cleaned_def Map_drop_printable [OF p] ReplaceAll_NUL_printable [OF p])
  also have "\<dots> = rev (replicate n (CHR ''a''))"
    by (simp only: TrimSpace_ascii [OF a] front rear)
  finally show ?thesis by simp
qed

text \<open>
  C3 as stated fails: a content of 4096 letters followed by one space is 4096 bytes
  long once sanitized, which the limit allows, and the frame is rejected with the
  content-too-long error all the same.
\<close>

theorem trailing_space_counterexample:
  "length (cleaned (replicate 4096 (CHR ''a'') @ '' '')) = 4096
   \<and> validateIncomingMessage (NewMessageValidator [])
        \<lparr>in_Type = ''message'', in_ID = [], in_From = ''+1'', in_Chat = [],
         in_Content = replicate 4096 (CHR ''a'') @ '' '', in_Media = [], in_FromName = [],
         in_Status = [], in_Error = [], in_Timestamp = 0, in_Signature = []\<rparr>
       = Inl (ContentValidationFailed ContentTooLong)"
proof
  show "length (cleaned (replicate 4096 (CHR ''a'') @ '' '')) = 4096"
    by (simp add: cleaned_text_then_space)
  show "validateIncomingMessage (NewMessageValidator [])
        \<lparr>in_Type = ''message'', in_ID = [], in_From = ''+1'', in_Chat = [],
         in_Content = replicate 4096 (CHR ''a'') @ '' '', in_Media = [], in_FromName = [],
         in_Status = [], in_Error = [], in_Timestamp = 0, in_Signature = []\<rparr>
       = Inl (ContentValidationFailed ContentTooLong)"
    by (simp add: validateIncomingMessage_too_long MaxContentLength_def)
qed

section \<open>The signed bytes\<close>

lemma byte_eq_iff: "byte c = byte d \<longleftrightarrow> c = d"
  by (simp add: byte_def)

lemma byte_special: "byte dquote = 0x22" "byte backslash = 0x5C"
  by (simp_all add: byte_def dquote_def backslash_def)

lemma lower_hex_not_quote:
  assumes "0 \<le> d" and "d < 16"
  shows "lower_hex d \<noteq> dquote"
proof -
  from assms have "d = 0 \<or> d = 1 \<or> d = 2 \<or> d = 3 \<or> d = 4 \<or> d = 5 \<or> d = 6 \<or> d = 7
      \<or> d = 8 \<or> d = 9 \<or> d = 10 \<or> d = 11 \<or> d = 12 \<or> d = 13 \<or> d = 14 \<or> d = 15"
    by presburger
  then show ?thesis
    by (elim disjE) (simp_all add: lower_hex_def dquote_def)
qed

text \<open>An escaped rune holds no quote, unless it is the escaped quote itself.\<close>

lemma json_escape_quote:
  assumes "rune_bytes_ok p"
  shows "dquote \<notin> set (json_escape p) \<or> json_escape p = [backslash, dquote]"
proof -
  obtain r bs where p: "p = (r, bs)" by (cases p)
  have r0: "0 \<le> r"
    using assms p byte_range(1) by (auto simp: rune_bytes_ok_def)
  show ?thesis
  proof (cases "r < 0x80")
    case True
    with assms p obtain c where c: "bs = [c]" "byte c = r"
      by (auto simp: rune_bytes_ok_def)
    show ?thesis
    proof (cases "r = 0x22")
      case True
      with c have "c = dquote"
        using byte_eq_iff [of c dquote] by (simp add: byte_special)
      with True p c show ?thesis by (simp add: json_escape_def)
    next
      case False
      with c have nq: "c \<noteq> dquote"
        using byte_special(1) by auto
      have "0 \<le> r div 16" "r div 16 < 16" "0 \<le> r mod 16" "r mod 16 < 16"
        using True r0 by simp_all
      then have h: "lower_hex (r div 16) \<noteq> dquote" "lower_hex (r mod 16) \<noteq> dquote"
        by (simp_all add: lower_hex_not_quote)
      have "dquote \<notin> set (json_escape (r, bs))"
        using False True c nq h
        by (auto simp: json_escape_def backslash_def dquote_def)
      with p show ?thesis by simp
    qed
  next
    case False
    with assms p have "list_all (\<lambda>c. 0x80 \<le> byte c) bs"
      by (auto simp: rune_bytes_ok_def)
    then have "dquote \<notin> set bs"
      using byte_special(1) by (auto simp: list_all_iff)
    with False p show ?thesis
      by (auto simp: json_escape_def backslash_def dquote_def)
  qed
qed


text \<open>A text in which the first quote, if there is one, follows a backslash.\<close>

definition first_quote_escaped :: "string \<Rightarrow> bool" where
  "first_quote_escaped e \<longleftrightarrow>
     dquote \<notin> set e \<or> (\<exists>p q. e = p @ backslash # dquote # q \<and> dquote \<notin> set p)"

lemma first_quote_escaped_step:
  assumes "dquote \<notin> set x \<or> x = [backslash, dquote]" and "first_quote_escaped e"
  shows "first_quote_escaped (x @ e)"
proof (cases "x = [backslash, dquote]")
  case True
  have "x @ e = [] @ backslash # dquote # e"
    using True by simp
  moreover have "dquote \<notin> set ([] :: string)"
    by simp
  ultimately have "\<exists>p q. x @ e = p @ backslash # dquote # q \<and> dquote \<notin> set p"
    by (intro exI conjI)
  then show ?thesis
    by (simp only: first_quote_escaped_def simp_thms)
next
  case False
  with assms(1) have x: "dquote \<notin> set x" by simp
  show ?thesis
  proof (cases "dquote \<in> set e")
    case False
    with x show ?thesis by (simp add: first_quote_escaped_def)
  next
    case True
    with assms(2) obtain p q where e: "e = p @ backslash # dquote # q" and p: "dquote \<notin> set p"
      unfolding first_quote_escaped_def by auto
    have "x @ e = (x @ p) @ backslash # dquote # q"
      using e by simp
    moreover have "dquote \<notin> set (x @ p)"
      using x p by simp
    ultimately have "\<exists>p q. x @ e = p @ backslash # dquote # q \<and> dquote \<notin> set p"
      by (intro exI conjI)
    then show ?thesis
      by (simp only: first_quote_escaped_def simp_thms)
  qed
qed

lemma first_quote_escaped_concat:
  assumes "list_all (\<lambda>x. dquote \<notin> set x \<or> x = [backslash, dquote]) xs"
  shows "first_quote_escaped (concat xs)"
  using assms
proof (induction xs)
  case Nil
  then show ?case by (simp add: first_quote_escaped_def)
next
  case (Cons x xs)
  then show ?case by (simp add: first_quote_escaped_step)
qed

lemma json_body_quotes: "first_quote_escaped (concat (map json_escape (segments s)))"
proof -
  have "list_all (\<lambda>x. dquote \<notin> set x \<or> x = [backslash, dquote])
          (map json_escape (segments s))"
    using segments_bytes_ok json_escape_quote by (auto simp: list_all_iff)
  then show ?thesis by (rule first_quote_escaped_concat)
qed

lemma split_at_first:
  assumes "x \<notin> set xs" and "x \<notin> set xs'" and "xs @ x # ys = xs' @ x # ys'"
  shows "xs = xs' \<and> ys = ys'"
proof -
  have "takeWhile (\<lambda>c. c \<noteq> x) (xs @ x # ys) = xs"
    using assms(1) by (auto simp: takeWhile_tail takeWhile_eq_all_conv)
  moreover have "takeWhile (\<lambda>c. c \<noteq> x) (xs' @ x # ys') = xs'"
    using assms(2) by (auto simp: takeWhile_tail takeWhile_eq_all_conv)
  ultimately have "xs = xs'"
    using assms(3) by simp
  with assms(3) show ?thesis by simp
qed

lemma quoted_eq_plain:
  assumes "first_quote_escaped e" and "dquote \<notin> set t" and "backslash \<notin> set t"
    and "e @ dquote # X = t @ dquote # Y"
  shows "e = t \<and> X = Y"
proof -
  from assms(1) consider "dquote \<notin> set e"
    | p q where "e = p @ backslash # dquote # q" "dquote \<notin> set p"
    unfolding first_quote_escaped_def by blast
  then show ?thesis
  proof cases
    case 1
    from 1 assms(2,4) show ?thesis
      by (rule split_at_first)
  next
    case (2 p q)
    then have "(p @ [backslash]) @ dquote # (q @ dquote # X) = t @ dquote # Y"
      using assms(4) by simp
    moreover have "dquote \<notin> set (p @ [backslash])"
      using 2(2) by (simp add: dquote_def backslash_def)
    ultimately have "p @ [backslash] = t"
      using assms(2) split_at_first [of dquote "p @ [backslash]" t "q @ dquote # X" Y]
      by blast
    with assms(3) show ?thesis by auto
  qed
qed

text \<open>What follows the \<open>type\<close> member in the serialization of an inbound message: it
  never starts with a member \<open>to\<close>.\<close>

definition inbound_members :: "IncomingMessage \<Rightarrow> string" where
  "inbound_members m =
     string_member ''id'' (in_ID m)
       @ string_member ''from'' (in_From m)
       @ string_member ''chat'' (in_Chat m)
       @ string_member ''content'' (in_Content m)
       @ strings_member ''media'' (in_Media m)
       @ string_member ''from_name'' (in_FromName m)
       @ string_member ''status'' (in_Status m)
       @ string_member ''error'' (in_Error m)
       @ int_member ''timestamp'' (in_Timestamp m)
       @ string_member ''signature'' (in_Signature m)
       @ ''}''"

definition starts_with_to :: "string \<Rightarrow> bool" where
  "starts_with_to x \<longleftrightarrow> take 4 x = [CHR '','', dquote, CHR ''t'', CHR ''o'']"

lemma member_not_to:
  assumes "2 \<le> length k" and "take 2 k \<noteq> ''to''"
  shows "\<not> starts_with_to (CHR '','' # json_key k @ x)"
proof -
  obtain a k1 where k1: "k = a # k1"
    using assms(1) by (cases k) auto
  then obtain b k' where "k1 = b # k'"
    using assms(1) by (cases k1) auto
  with k1 have "k = a # b # k'" by simp
  with assms(2) show ?thesis
    by (auto simp: starts_with_to_def json_key_def)
qed

lemma string_member_not_to:
  assumes "2 \<le> length k" and "take 2 k \<noteq> ''to''" and "\<not> starts_with_to rest"
  shows "\<not> starts_with_to (string_member k v @ rest)"
  using assms member_not_to [of k] by (simp add: string_member_def)

lemma strings_member_not_to:
  assumes "2 \<le> length k" and "take 2 k \<noteq> ''to''" and "\<not> starts_with_to rest"
  shows "\<not> starts_with_to (strings_member k v @ rest)"
  using assms member_not_to [of k] by (simp add: strings_member_def)

lemma int_member_not_to:
  assumes "2 \<le> length k" and "take 2 k \<noteq> ''to''" and "\<not> starts_with_to rest"
  shows "\<not> starts_with_to (int_member k v @ rest)"
  using assms member_not_to [of k] by (simp add: int_member_def)

lemma inbound_members_not_to: "\<not> starts_with_to (inbound_members m)"
  unfolding inbound_members_def
  by (intro string_member_not_to strings_member_not_to int_member_not_to)
    (simp_all add: starts_with_to_def)

lemma marshalIncoming_shape:
  "marshalIncoming m =
     (CHR ''{'' # json_key ''type'') @ [dquote]
       @ concat (map json_escape (segments (in_Type m))) @ dquote # inbound_members m"
  by (simp add: marshalIncoming_def inbound_members_def json_string_def)

lemma json_string_message: "json_string ''message'' = dquote # ''message'' @ [dquote]"
  by code_simp

lemma marshalOutgoing_shape:
  assumes "out_Type m = ''message''" and "out_To m \<noteq> []"
  shows "\<exists>rest. starts_with_to rest
           \<and> marshalOutgoing m
               = (CHR ''{'' # json_key ''type'') @ [dquote] @ ''message'' @ dquote # rest"
proof -
  let ?rest = "string_member ''to'' (out_To m)
       @ string_member ''content'' (out_Content m)
       @ strings_member ''media'' (out_Media m)
       @ int_member ''timestamp'' (out_Timestamp m)
       @ string_member ''signature'' (out_Signature m)
       @ ''}''"
  have "starts_with_to ?rest"
    using assms(2) by (simp add: string_member_def starts_with_to_def json_key_def)
  moreover have "marshalOutgoing m
               = (CHR ''{'' # json_key ''type'') @ [dquote] @ ''message'' @ dquote # ?rest"
    using assms(1) by (simp add: marshalOutgoing_def json_string_message)
  ultimately show ?thesis by blast
qed

text \<open>No inbound message has the serialization of an outbound message of type
  \<open>message\<close> with a recipient.\<close>

lemma marshalIncoming_neq_marshalOutgoing:
  assumes "out_Type m = ''message''" and "out_To m \<noteq> []"
  shows "marshalIncoming inc \<noteq> marshalOutgoing m"
proof
  assume eq: "marshalIncoming inc = marshalOutgoing m"
  obtain rest where rest: "starts_with_to rest"
    and out: "marshalOutgoing m
               = (CHR ''{'' # json_key ''type'') @ [dquote] @ ''message'' @ dquote # rest"
    using marshalOutgoing_shape [OF assms] by blast
  let ?e = "concat (map json_escape (segments (in_Type inc)))"
  from eq have "?e @ dquote # inbound_members inc = ''message'' @ dquote # rest"
    unfolding marshalIncoming_shape out by (simp only: same_append_eq)
  moreover have "dquote \<notin> set ''message''" "backslash \<notin> set ''message''"
    by (simp_all add: dquote_def backslash_def)
  ultimately have "inbound_members inc = rest"
    using quoted_eq_plain [OF json_body_quotes] by blast
  with rest inbound_members_not_to [of inc] show False by simp
qed


section \<open>Signing and verifying\<close>

lemma length_hstate_bytes: "length (hstate_bytes h) = 32"
  by (cases h) simp

lemma length_calculateSignature: "length (calculateSignature v data) = 64"
  by (simp add: calculateSignature_def hex_EncodeToString_def hmac_sha256_def sha256_def
      length_hstate_bytes length_concat comp_def sum_list_triv)

lemma ValidateOutgoing_signed:
  assumes "hmacKey v \<noteq> []" and "ValidateOutgoing v now msg = Inr msg'"
  shows "out_Type msg' = ''message''" and "out_To msg' \<noteq> []"
    and "out_Signature msg' = calculateSignature v (marshalOutgoing (msg'\<lparr>out_Signature := []\<rparr>))"
proof -
  define m where "m = msg\<lparr>out_Content := cleaned (out_Content msg),
      out_Timestamp := (if out_Timestamp msg = 0 then now else out_Timestamp msg)\<rparr>"
  from assms(2) have t: "out_Type msg = MessageTypeMessage"
    and p: "validatePhoneNumber (out_To msg) = None"
    and s: "signMessage v m = Inr msg'"
    by (auto simp: ValidateOutgoing_def m_def sanitizeContent_def
        split: if_splits option.splits sum.splits)
  from s assms(1) have msg':
    "msg' = m\<lparr>out_Signature := calculateSignature v (marshalOutgoing (m\<lparr>out_Signature := []\<rparr>))\<rparr>"
    by (auto simp: signMessage_def)
  show "out_Type msg' = ''message''"
    using t by (simp add: msg' m_def MessageTypeMessage_def)
  show "out_To msg' \<noteq> []"
    using p by (auto simp: msg' m_def validatePhoneNumber_def split: if_splits)
  have "msg'\<lparr>out_Signature := []\<rparr> = m\<lparr>out_Signature := []\<rparr>"
    by (simp add: msg')
  then show "out_Signature msg'
               = calculateSignature v (marshalOutgoing (msg'\<lparr>out_Signature := []\<rparr>))"
    by (simp add: msg')
qed

lemma VerifySignature_None_iff:
  assumes "hmacKey v \<noteq> []"
  shows "VerifySignature v inc = None \<longleftrightarrow>
           in_Signature inc = calculateSignature v (marshalIncoming (inc\<lparr>in_Signature := []\<rparr>))"
proof (cases "in_Signature inc = []")
  case True
  moreover have "calculateSignature v (marshalIncoming (inc\<lparr>in_Signature := []\<rparr>)) \<noteq> []"
    using length_calculateSignature [of v "marshalIncoming (inc\<lparr>in_Signature := []\<rparr>)"]
    by auto
  ultimately show ?thesis using assms by (simp add: VerifySignature_def)
next
  case False
  with assms show ?thesis by (simp add: VerifySignature_def)
qed

text \<open>
  C2 (as amended). Under a key that is not empty, the signature that \<open>ValidateOutgoing\<close>
  attaches is the HMAC-SHA256, in 64 hexadecimal digits, of the serialization of the
  outbound message without its signature. \<open>VerifySignature\<close> accepts an inbound message
  exactly when its signature is the HMAC of the serialization of that inbound message
  without its signature, and no inbound message has the serialization that was
  signed: the outbound one has a member \<open>to\<close>, which \<open>IncomingMessage\<close> lacks.
\<close>

theorem signature_covers_outgoing_serialization:
  assumes "hmacKey v \<noteq> []" and "ValidateOutgoing v now msg = Inr msg'"
  shows "out_Signature msg' = calculateSignature v (marshalOutgoing (msg'\<lparr>out_Signature := []\<rparr>))
         \<and> length (out_Signature msg') = 64
         \<and> (VerifySignature v inc = None \<longleftrightarrow>
              in_Signature inc
                = calculateSignature v (marshalIncoming (inc\<lparr>in_Signature := []\<rparr>)))
         \<and> marshalIncoming (inc\<lparr>in_Signature := []\<rparr>)
              \<noteq> marshalOutgoing (msg'\<lparr>out_Signature := []\<rparr>)"
proof (intro conjI)
  note s = ValidateOutgoing_signed [OF assms]
  show sig: "out_Signature msg'
               = calculateSignature v (marshalOutgoing (msg'\<lparr>out_Signature := []\<rparr>))"
    by (rule s(3))
  show "length (out_Signature msg') = 64"
    by (subst sig) (rule length_calculateSignature)
  show "VerifySignature v inc = None \<longleftrightarrow>
          in_Signature inc = calculateSignature v (marshalIncoming (inc\<lparr>in_Signature := []\<rparr>))"
    using assms(1) by (rule VerifySignature_None_iff)
  show "marshalIncoming (inc\<lparr>in_Signature := []\<rparr>)
          \<noteq> marshalOutgoing (msg'\<lparr>out_Signature := []\<rparr>)"
    using s(1,2) by (intro marshalIncoming_neq_marshalOutgoing) simp_all
qed

text \<open>The message of the repository's signing test, under its key.\<close>

lemma ValidateOutgoing_signed_example:
  "ValidateOutgoing (NewMessageValidator ''test-secret-key'') 1700000000
     \<lparr>out_Type = ''message'', out_To = ''+1234567890'', out_Content = ''Test message'',
      out_Media = [], out_Timestamp = 0, out_Signature = []\<rparr>
   = Inr \<lparr>out_Type = ''message'', out_To = ''+1234567890'', out_Content = ''Test message'',
          out_Media = [], out_Timestamp = 1700000000,
          out_Signature = ''18785942fa1bdb996765a2e1532d27a2e6c953cb5a9c8c011f9d0da896d70f81''\<rparr>"
  by code_simp

lemma Unmarshal_signed_example:
  "Unmarshal_flat
     (marshalOutgoing
        \<lparr>out_Type = ''message'', out_To = ''+1234567890'', out_Content = ''Test message'',
         out_Media = [], out_Timestamp = 1700000000,
         out_Signature = ''18785942fa1bdb996765a2e1532d27a2e6c953cb5a9c8c011f9d0da896d70f81''\<rparr>)
   = Some \<lparr>in_Type = ''message'', in_ID = [], in_From = [], in_Chat = [],
           in_Content = ''Test message'', in_Media = [], in_FromName = [], in_Status = [],
           in_Error = [], in_Timestamp = 1700000000,
           in_Signature = ''18785942fa1bdb996765a2e1532d27a2e6c953cb5a9c8c011f9d0da896d70f81''\<rparr>"
  by code_simp

lemma VerifySignature_signed_example:
  "VerifySignature (NewMessageValidator ''test-secret-key'')
     \<lparr>in_Type = ''message'', in_ID = [], in_From = [], in_Chat = [],
      in_Content = ''Test message'', in_Media = [], in_FromName = [], in_Status = [],
      in_Error = [], in_Timestamp = 1700000000,
      in_Signature = ''18785942fa1bdb996765a2e1532d27a2e6c953cb5a9c8c011f9d0da896d70f81''\<rparr>
   = Some InvalidSignature"
  by code_simp


theorem signature_covers_outgoing_serialization_witness:
  "hmacKey (NewMessageValidator ''test-secret-key'') \<noteq> []
   \<and> ValidateOutgoing (NewMessageValidator ''test-secret-key'') 1700000000
        \<lparr>out_Type = ''message'', out_To = ''+1234567890'', out_Content = ''Test message'',
         out_Media = [], out_Timestamp = 0, out_Signature = []\<rparr>
      = Inr \<lparr>out_Type = ''message'', out_To = ''+1234567890'', out_Content = ''Test message'',
             out_Media = [], out_Timestamp = 1700000000,
             out_Signature = ''18785942fa1bdb996765a2e1532d27a2e6c953cb5a9c8c011f9d0da896d70f81''\<rparr>
   \<and> ''18785942fa1bdb996765a2e1532d27a2e6c953cb5a9c8c011f9d0da896d70f81''
      = calculateSignature (NewMessageValidator ''test-secret-key'')
          (marshalOutgoing
             \<lparr>out_Type = ''message'', out_To = ''+1234567890'', out_Content = ''Test message'',
              out_Media = [], out_Timestamp = 1700000000, out_Signature = []\<rparr>)
   \<and> marshalIncoming
        \<lparr>in_Type = ''message'', in_ID = [], in_From = [], in_Chat = [],
         in_Content = ''Test message'', in_Media = [], in_FromName = [], in_Status = [],
         in_Error = [], in_Timestamp = 1700000000, in_Signature = []\<rparr>
      \<noteq> marshalOutgoing
          \<lparr>out_Type = ''message'', out_To = ''+1234567890'', out_Content = ''Test message'',
           out_Media = [], out_Timestamp = 1700000000, out_Signature = []\<rparr>"
proof -
  have k: "hmacKey (NewMessageValidator ''test-secret-key'') \<noteq> []"
    by (simp add: NewMessageValidator_def)
  note t = signature_covers_outgoing_serialization [OF k ValidateOutgoing_signed_example,
      of "\<lparr>in_Type = ''message'', in_ID = [], in_From = [], in_Chat = [],
           in_Content = ''Test message'', in_Media = [], in_FromName = [], in_Status = [],
           in_Error = [], in_Timestamp = 1700000000, in_Signature = []\<rparr>"]
  from t k ValidateOutgoing_signed_example show ?thesis
    by simp
qed

text \<open>
  C2 as stated fails: the frame that \<open>ValidateOutgoing\<close> signs under the key of the
  repository's test, parsed as an inbound message, is rejected by \<open>VerifySignature\<close> under
  the same key with the invalid-signature error.
\<close>

theorem signed_frame_rejected_counterexample:
  "ValidateOutgoing (NewMessageValidator ''test-secret-key'') 1700000000
     \<lparr>out_Type = ''message'', out_To = ''+1234567890'', out_Content = ''Test message'',
      out_Media = [], out_Timestamp = 0, out_Signature = []\<rparr>
   = Inr \<lparr>out_Type = ''message'', out_To = ''+1234567890'', out_Content = ''Test message'',
          out_Media = [], out_Timestamp = 1700000000,
          out_Signature = ''18785942fa1bdb996765a2e1532d27a2e6c953cb5a9c8c011f9d0da896d70f81''\<rparr>
   \<and> Unmarshal_flat
        (marshalOutgoing
           \<lparr>out_Type = ''message'', out_To = ''+1234567890'', out_Content = ''Test message'',
            out_Media = [], out_Timestamp = 1700000000,
            out_Signature = ''18785942fa1bdb996765a2e1532d27a2e6c953cb5a9c8c011f9d0da896d70f81''\<rparr>)
      = Some \<lparr>in_Type = ''message'', in_ID = [], in_From = [], in_Chat = [],
              in_Content = ''Test message'', in_Media = [], in_FromName = [], in_Status = [],
              in_Error = [], in_Timestamp = 1700000000,
              in_Signature = ''18785942fa1bdb996765a2e1532d27a2e6c953cb5a9c8c011f9d0da896d70f81''\<rparr>
   \<and> VerifySignature (NewMessageValidator ''test-secret-key'')
        \<lparr>in_Type = ''message'', in_ID = [], in_From = [], in_Chat = [],
         in_Content = ''Test message'', in_Media = [], in_FromName = [], in_Status = [],
         in_Error = [], in_Timestamp = 1700000000,
         in_Signature = ''18785942fa1bdb996765a2e1532d27a2e6c953cb5a9c8c011f9d0da896d70f81''\<rparr>
      = Some InvalidSignature"
  using ValidateOutgoing_signed_example Unmarshal_signed_example VerifySignature_signed_example
  by (intro conjI)

section \<open>Media paths in the two entry points\<close>

lemma ValidateOutgoing_media:
  assumes "ValidateOutgoing v now msg = Inr msg'"
  shows "validateMedia (out_Media msg) = None"
  using assms
  by (auto simp: ValidateOutgoing_def split: if_splits option.splits sum.splits)

lemma ValidateOutgoing_media_rejected:
  assumes "validateMedia (out_Media msg) = Some e"
  shows "\<exists>e'. ValidateOutgoing v now msg = Inl e'"
  using assms
  by (auto simp: ValidateOutgoing_def split: if_splits option.splits sum.splits)

lemma ValidateOutgoing_media_error:
  assumes "out_Type msg = MessageTypeMessage" and "validatePhoneNumber (out_To msg) = None"
    and "length (out_Content msg) \<le> MaxContentLength"
    and "validateMedia (out_Media msg) = Some e"
  shows "ValidateOutgoing v now msg = Inl e"
  using assms by (simp add: ValidateOutgoing_def sanitizeContent_def)

lemma validateIncomingMessage_media:
  assumes "validateIncomingMessage v msg = Inr msg'"
  shows "validateMedia (in_Media msg') = None"
proof -
  from assms have "validateMedia (in_Media msg) = None"
    by (auto simp: validateIncomingMessage_def split: if_splits option.splits sum.splits)
  moreover from assms have "in_Media msg' = in_Media msg"
    by (auto simp: validateIncomingMessage_def split: if_splits option.splits sum.splits)
  ultimately show ?thesis by simp
qed

lemma validateIncomingMessage_media_rejected:
  assumes "validateMedia (in_Media msg) = Some e"
  shows "\<exists>e'. validateIncomingMessage v msg = Inl e'"
  using assms
  by (auto simp: validateIncomingMessage_def split: if_splits option.splits sum.splits)

lemma validateIncomingMessage_media_error:
  assumes "in_From msg \<noteq> []" and "length (in_From msg) \<le> 50"
    and "length (in_Content msg) \<le> MaxContentLength"
    and "validateMedia (in_Media msg) = Some e"
  shows "validateIncomingMessage v msg = Inl e"
proof -
  from assms(1,2) have p: "validatePhoneNumber (in_From msg) = None"
    by (simp add: validatePhoneNumber_None)
  from assms(4) have m: "in_Media msg \<noteq> []"
    by auto
  from assms(1,3,4) p m show ?thesis
    by (simp add: validateIncomingMessage_def sanitizeContent_def)
qed

lemma ValidateIncoming_of_message:
  assumes "unmarshal data = Some msg" and "in_Type msg = MessageTypeMessage"
  shows "ValidateIncoming unmarshal v data = validateIncomingMessage v msg"
  using assms by (simp add: ValidateIncoming_def validateMessageType_def)

text \<open>
  C8 (as amended). \<open>validateMediaPath\<close> accepts a path exactly when the path does not
  contain the two characters \<open>..\<close> anywhere and its lower-cased text ends with one of
  the allow-listed extensions. Hence every path with a parent-directory traversal
  segment is rejected with the traversal error, whatever its extension, and the loop
  over a media list fails with an invalid-media-path error as soon as one path has
  such a segment. Both entry points run that loop: a message that \<open>ValidateOutgoing\<close>
  accepts, and a frame of type \<open>message\<close> that \<open>ValidateIncoming\<close> accepts, carry only
  media paths that \<open>validateMediaPath\<close> accepts; a message with a traversal segment in
  one of its media paths is rejected by either, and with the invalid-media-path error
  when the checks that come before the media (type, recipient or sender, length of
  the content) pass.
\<close>

theorem validateMediaPath_accepts_iff:
  "(validateMediaPath p = None \<longleftrightarrow>
      \<not> Contains p ''..'' \<and> list_ex (\<lambda>ext. HasSuffix (ToLower p) ext) validExtensions)
   \<and> (Contains p ''..'' \<longleftrightarrow> (\<exists>ps ss. p = ps @ ''..'' @ ss))
   \<and> (has_traversal_segment p \<longrightarrow> validateMediaPath p = Some DirectoryTraversal)
   \<and> (validateMedia paths = None \<longleftrightarrow> list_all (\<lambda>q. validateMediaPath q = None) paths)
   \<and> (list_ex has_traversal_segment paths \<longrightarrow> (\<exists>e. validateMedia paths = Some (InvalidMediaPath e)))
   \<and> (ValidateOutgoing v now sent = Inr sent'
        \<longrightarrow> list_all (\<lambda>q. validateMediaPath q = None) (out_Media sent))
   \<and> (list_ex has_traversal_segment (out_Media msg)
        \<longrightarrow> (\<exists>e. ValidateOutgoing v now msg = Inl e))
   \<and> (list_ex has_traversal_segment (out_Media msg)
        \<and> out_Type msg = MessageTypeMessage \<and> validatePhoneNumber (out_To msg) = None
        \<and> length (out_Content msg) \<le> MaxContentLength
        \<longrightarrow> (\<exists>e. ValidateOutgoing v now msg = Inl (InvalidMediaPath e)))
   \<and> (ValidateIncoming unmarshal v frame = Inr received \<and> in_Type received = MessageTypeMessage
        \<longrightarrow> list_all (\<lambda>q. validateMediaPath q = None) (in_Media received))
   \<and> (unmarshal data = Some inc \<and> in_Type inc = MessageTypeMessage
        \<and> list_ex has_traversal_segment (in_Media inc)
        \<longrightarrow> (\<exists>e. ValidateIncoming unmarshal v data = Inl e))
   \<and> (unmarshal data = Some inc \<and> in_Type inc = MessageTypeMessage
        \<and> list_ex has_traversal_segment (in_Media inc)
        \<and> in_From inc \<noteq> [] \<and> length (in_From inc) \<le> 50
        \<and> length (in_Content inc) \<le> MaxContentLength
        \<longrightarrow> (\<exists>e. ValidateIncoming unmarshal v data = Inl (InvalidMediaPath e)))"
proof (intro conjI impI)
  show "validateMediaPath p = None \<longleftrightarrow>
      \<not> Contains p ''..'' \<and> list_ex (\<lambda>ext. HasSuffix (ToLower p) ext) validExtensions"
    by (simp add: validateMediaPath_def)
  show "Contains p ''..'' \<longleftrightarrow> (\<exists>ps ss. p = ps @ ''..'' @ ss)"
    by (rule Contains_iff)
  show "validateMediaPath p = Some DirectoryTraversal" if "has_traversal_segment p"
    using that by (simp add: validateMediaPath_def traversal_segment_contains)
  show "validateMedia paths = None \<longleftrightarrow> list_all (\<lambda>q. validateMediaPath q = None) paths"
    by (rule validateMedia_None_iff)
  show "\<exists>e. validateMedia paths = Some (InvalidMediaPath e)"
    if "list_ex has_traversal_segment paths"
    using that by (rule validateMedia_traversal)
  show "list_all (\<lambda>q. validateMediaPath q = None) (out_Media sent)"
    if "ValidateOutgoing v now sent = Inr sent'"
    using ValidateOutgoing_media [OF that] by (simp add: validateMedia_None_iff)
  show "\<exists>e. ValidateOutgoing v now msg = Inl e"
    if "list_ex has_traversal_segment (out_Media msg)"
    using validateMedia_traversal [OF that] ValidateOutgoing_media_rejected by blast
  show "\<exists>e. ValidateOutgoing v now msg = Inl (InvalidMediaPath e)"
    if "list_ex has_traversal_segment (out_Media msg)
        \<and> out_Type msg = MessageTypeMessage \<and> validatePhoneNumber (out_To msg) = None
        \<and> length (out_Content msg) \<le> MaxContentLength"
  proof -
    from that obtain e where "validateMedia (out_Media msg) = Some (InvalidMediaPath e)"
      using validateMedia_traversal by blast
    with that have "ValidateOutgoing v now msg = Inl (InvalidMediaPath e)"
      by (intro ValidateOutgoing_media_error) simp_all
    then show ?thesis by blast
  qed
  show "list_all (\<lambda>q. validateMediaPath q = None) (in_Media received)"
    if "ValidateIncoming unmarshal v frame = Inr received
        \<and> in_Type received = MessageTypeMessage"
  proof -
    from that obtain msg where "validateIncomingMessage v msg = Inr received"
      using ValidateIncoming_message [of unmarshal v frame received] by blast
    then show ?thesis
      using validateIncomingMessage_media by (simp add: validateMedia_None_iff)
  qed
  show "\<exists>e. ValidateIncoming unmarshal v data = Inl e"
    if "unmarshal data = Some inc \<and> in_Type inc = MessageTypeMessage
        \<and> list_ex has_traversal_segment (in_Media inc)"
  proof -
    from that obtain e where "validateMedia (in_Media inc) = Some e"
      using validateMedia_traversal by blast
    then obtain e' where "validateIncomingMessage v inc = Inl e'"
      using validateIncomingMessage_media_rejected by blast
    with that show ?thesis
      by (simp add: ValidateIncoming_of_message)
  qed
  show "\<exists>e. ValidateIncoming unmarshal v data = Inl (InvalidMediaPath e)"
    if "unmarshal data = Some inc \<and> in_Type inc = MessageTypeMessage
        \<and> list_ex has_traversal_segment (in_Media inc)
        \<and> in_From inc \<noteq> [] \<and> length (in_From inc) \<le> 50
        \<and> length (in_Content inc) \<le> MaxContentLength"
  proof -
    from that obtain e where "validateMedia (in_Media inc) = Some (InvalidMediaPath e)"
      using validateMedia_traversal by blast
    with that have "validateIncomingMessage v inc = Inl (InvalidMediaPath e)"
      by (intro validateIncomingMessage_media_error) simp_all
    with that show ?thesis
      by (simp add: ValidateIncoming_of_message)
  qed
qed

text \<open>The path of the specification's example, in a message and in a frame.\<close>

lemma ValidateOutgoing_media_examples:
  "ValidateOutgoing (NewMessageValidator []) 1700000000
     \<lparr>out_Type = ''message'', out_To = ''+1234567890'', out_Content = ''photo'',
      out_Media = [''a.png''], out_Timestamp = 0, out_Signature = []\<rparr>
   = Inr \<lparr>out_Type = ''message'', out_To = ''+1234567890'', out_Content = ''photo'',
          out_Media = [''a.png''], out_Timestamp = 1700000000, out_Signature = []\<rparr>"
  "ValidateOutgoing (NewMessageValidator []) 1700000000
     \<lparr>out_Type = ''message'', out_To = ''+1234567890'', out_Content = ''photo'',
      out_Media = [''a.png'', ''../../etc/passwd.png''], out_Timestamp = 0,
      out_Signature = []\<rparr>
   = Inl (InvalidMediaPath DirectoryTraversal)"
  by code_simp+

lemma ValidateIncoming_media_examples:
  "ValidateIncoming Unmarshal_flat (NewMessageValidator [])
     (marshalIncoming
        \<lparr>in_Type = ''message'', in_ID = [], in_From = ''+1234567890'', in_Chat = [],
         in_Content = ''photo'', in_Media = [''a.png''], in_FromName = [], in_Status = [],
         in_Error = [], in_Timestamp = 1700000000, in_Signature = []\<rparr>)
   = Inr \<lparr>in_Type = ''message'', in_ID = [], in_From = ''+1234567890'', in_Chat = [],
          in_Content = ''photo'', in_Media = [''a.png''], in_FromName = [], in_Status = [],
          in_Error = [], in_Timestamp = 1700000000, in_Signature = []\<rparr>"
  "Unmarshal_flat
     (marshalIncoming
        \<lparr>in_Type = ''message'', in_ID = [], in_From = ''+1234567890'', in_Chat = [],
         in_Content = ''photo'', in_Media = [''a.png'', ''../../etc/passwd.png''],
         in_FromName = [], in_Status = [], in_Error = [], in_Timestamp = 1700000000,
         in_Signature = []\<rparr>)
   = Some \<lparr>in_Type = ''message'', in_ID = [], in_From = ''+1234567890'', in_Chat = [],
           in_Content = ''photo'', in_Media = [''a.png'', ''../../etc/passwd.png''],
           in_FromName = [], in_Status = [], in_Error = [], in_Timestamp = 1700000000,
           in_Signature = []\<rparr>"
  "ValidateIncoming Unmarshal_flat (NewMessageValidator [])
     (marshalIncoming
        \<lparr>in_Type = ''message'', in_ID = [], in_From = ''+1234567890'', in_Chat = [],
         in_Content = ''photo'', in_Media = [''a.png'', ''../../etc/passwd.png''],
         in_FromName = [], in_Status = [], in_Error = [], in_Timestamp = 1700000000,
         in_Signature = []\<rparr>)
   = Inl (InvalidMediaPath DirectoryTraversal)"
  by code_simp+

theorem validateMediaPath_accepts_iff_witness:
  "has_traversal_segment ''../../etc/passwd.png''
   \<and> validateMediaPath ''../../etc/passwd.png'' = Some DirectoryTraversal
   \<and> list_ex has_traversal_segment [''a.png'', ''../../etc/passwd.png'']
   \<and> (\<exists>e. validateMedia [''a.png'', ''../../etc/passwd.png''] = Some (InvalidMediaPath e))
   \<and> ValidateOutgoing (NewMessageValidator []) 1700000000
        \<lparr>out_Type = ''message'', out_To = ''+1234567890'', out_Content = ''photo'',
         out_Media = [''a.png''], out_Timestamp = 0, out_Signature = []\<rparr>
      = Inr \<lparr>out_Type = ''message'', out_To = ''+1234567890'', out_Content = ''photo'',
             out_Media = [''a.png''], out_Timestamp = 1700000000, out_Signature = []\<rparr>
   \<and> list_all (\<lambda>q. validateMediaPath q = None) [''a.png'']
   \<and> validatePhoneNumber ''+1234567890'' = None
   \<and> length ''photo'' \<le> MaxContentLength
   \<and> (\<exists>e. ValidateOutgoing (NewMessageValidator []) 1700000000
              \<lparr>out_Type = ''message'', out_To = ''+1234567890'', out_Content = ''photo'',
               out_Media = [''a.png'', ''../../etc/passwd.png''], out_Timestamp = 0,
               out_Signature = []\<rparr>
            = Inl (InvalidMediaPath e))
   \<and> ValidateIncoming Unmarshal_flat (NewMessageValidator [])
        (marshalIncoming
           \<lparr>in_Type = ''message'', in_ID = [], in_From = ''+1234567890'', in_Chat = [],
            in_Content = ''photo'', in_Media = [''a.png''], in_FromName = [], in_Status = [],
            in_Error = [], in_Timestamp = 1700000000, in_Signature = []\<rparr>)
      = Inr \<lparr>in_Type = ''message'', in_ID = [], in_From = ''+1234567890'', in_Chat = [],
             in_Content = ''photo'', in_Media = [''a.png''], in_FromName = [], in_Status = [],
             in_Error = [], in_Timestamp = 1700000000, in_Signature = []\<rparr>
   \<and> Unmarshal_flat
        (marshalIncoming
           \<lparr>in_Type = ''message'', in_ID = [], in_From = ''+1234567890'', in_Chat = [],
            in_Content = ''photo'', in_Media = [''a.png'', ''../../etc/passwd.png''],
            in_FromName = [], in_Status = [], in_Error = [], in_Timestamp = 1700000000,
            in_Signature = []\<rparr>)
      = Some \<lparr>in_Type = ''message'', in_ID = [], in_From = ''+1234567890'', in_Chat = [],
              in_Content = ''photo'', in_Media = [''a.png'', ''../../etc/passwd.png''],
              in_FromName = [], in_Status = [], in_Error = [], in_Timestamp = 1700000000,
              in_Signature = []\<rparr>
   \<and> (\<exists>e. ValidateIncoming Unmarshal_flat (NewMessageValidator [])
              (marshalIncoming
                 \<lparr>in_Type = ''message'', in_ID = [], in_From = ''+1234567890'', in_Chat = [],
                  in_Content = ''photo'', in_Media = [''a.png'', ''../../etc/passwd.png''],
                  in_FromName = [], in_Status = [], in_Error = [],
                  in_Timestamp = 1700000000, in_Signature = []\<rparr>)
            = Inl (InvalidMediaPath e))"
proof -
  have h: "has_traversal_segment ''../../etc/passwd.png''"
    by (rule passwd_has_traversal)
  have l: "list_ex has_traversal_segment [''a.png'', ''../../etc/passwd.png'']"
    using h by simp
  have n: "validatePhoneNumber ''+1234567890'' = None" "length ''photo'' \<le> MaxContentLength"
    by (simp_all add: validatePhoneNumber_def MaxContentLength_def)
  note t = validateMediaPath_accepts_iff
    [where p = "''../../etc/passwd.png''" and paths = "[''a.png'', ''../../etc/passwd.png'']"
       and v = "NewMessageValidator []" and now = 1700000000
       and sent = "\<lparr>out_Type = ''message'', out_To = ''+1234567890'',
                     out_Content = ''photo'', out_Media = [''a.png''], out_Timestamp = 0,
                     out_Signature = []\<rparr>"
       and sent' = "\<lparr>out_Type = ''message'', out_To = ''+1234567890'',
                      out_Content = ''photo'', out_Media = [''a.png''],
                      out_Timestamp = 1700000000, out_Signature = []\<rparr>"
       and msg = "\<lparr>out_Type = ''message'', out_To = ''+1234567890'',
                    out_Content = ''photo'', out_Media = [''a.png'', ''../../etc/passwd.png''],
                    out_Timestamp = 0, out_Signature = []\<rparr>"
       and unmarshal = Unmarshal_flat
       and frame = "marshalIncoming
           \<lparr>in_Type = ''message'', in_ID = [], in_From = ''+1234567890'', in_Chat = [],
            in_Content = ''photo'', in_Media = [''a.png''], in_FromName = [], in_Status = [],
            in_Error = [], in_Timestamp = 1700000000, in_Signature = []\<rparr>"
       and received = "\<lparr>in_Type = ''message'', in_ID = [], in_From = ''+1234567890'',
            in_Chat = [], in_Content = ''photo'', in_Media = [''a.png''], in_FromName = [],
            in_Status = [], in_Error = [], in_Timestamp = 1700000000, in_Signature = []\<rparr>"
       and data = "marshalIncoming
           \<lparr>in_Type = ''message'', in_ID = [], in_From = ''+1234567890'', in_Chat = [],
            in_Content = ''photo'', in_Media = [''a.png'', ''../../etc/passwd.png''],
            in_FromName = [], in_Status = [], in_Error = [], in_Timestamp = 1700000000,
            in_Signature = []\<rparr>"
       and inc = "\<lparr>in_Type = ''message'', in_ID = [], in_From = ''+1234567890'',
            in_Chat = [], in_Content = ''photo'',
            in_Media = [''a.png'', ''../../etc/passwd.png''], in_FromName = [],
            in_Status = [], in_Error = [], in_Timestamp = 1700000000, in_Signature = []\<rparr>"]
  from t h l n ValidateOutgoing_media_examples(1) ValidateIncoming_media_examples(1,2)
  show ?thesis
    by (simp add: MessageTypeMessage_def)
qed

end
